theory Spec2Isabelle
  imports Main
begin

section \<open>The string operations of the host language\<close>

text \<open>
  The decoder works on JavaScript strings through \<^verbatim>\<open>indexOf\<close>, \<^verbatim>\<open>lastIndexOf\<close>,
  \<^verbatim>\<open>substring\<close>, \<^verbatim>\<open>slice\<close>, \<^verbatim>\<open>startsWith\<close> and \<^verbatim>\<open>trim\<close>. A string is a list of code
  units (\<^typ>\<open>string\<close>); an index is an \<^typ>\<open>int\<close>, because the source computes with the
  \<open>-1\<close> that a failed search returns.
\<close>

definition startsWith :: "string \<Rightarrow> string \<Rightarrow> bool" where
  \<comment> \<open>\<^verbatim>\<open>s.startsWith(p)\<close>\<close>
  "startsWith s p = (take (length p) s = p)"

fun findFrom :: "string \<Rightarrow> string \<Rightarrow> nat \<Rightarrow> int" where
  \<comment> \<open>the first position, counted from \<open>k\<close>, at which \<open>p\<close> starts in \<open>s\<close>; \<open>-1\<close> if none\<close>
  "findFrom p [] k = (if p = [] then int k else -1)"
| "findFrom p (c # cs) k = (if startsWith (c # cs) p then int k else findFrom p cs (Suc k))"

definition indexOfFrom :: "string \<Rightarrow> string \<Rightarrow> int \<Rightarrow> int" where
  \<comment> \<open>\<^verbatim>\<open>s.indexOf(p, from)\<close>: \<open>from\<close> is clamped to \<open>0 .. length s\<close>\<close>
  "indexOfFrom s p from = (let k = min (nat from) (length s) in findFrom p (drop k s) k)"

definition indexOf :: "string \<Rightarrow> string \<Rightarrow> int" where
  \<comment> \<open>\<^verbatim>\<open>s.indexOf(p)\<close>\<close>
  "indexOf s p = indexOfFrom s p 0"

fun findLast :: "string \<Rightarrow> string \<Rightarrow> nat \<Rightarrow> int" where
  \<comment> \<open>the last position \<open>\<le> k\<close> at which \<open>p\<close> starts in \<open>s\<close>; \<open>-1\<close> if none\<close>
  "findLast p s 0 = (if startsWith s p then 0 else -1)"
| "findLast p s (Suc k) = (if startsWith (drop (Suc k) s) p then int (Suc k) else findLast p s k)"

definition lastIndexOfFrom :: "string \<Rightarrow> string \<Rightarrow> int \<Rightarrow> int" where
  \<comment> \<open>\<^verbatim>\<open>s.lastIndexOf(p, from)\<close>: the search starts at \<open>min from (length s - length p)\<close>\<close>
  "lastIndexOfFrom s p from =
     (if length s < length p then -1
      else findLast p s (min (nat from) (length s - length p)))"

definition lastIndexOf :: "string \<Rightarrow> string \<Rightarrow> int" where
  \<comment> \<open>\<^verbatim>\<open>s.lastIndexOf(p)\<close>\<close>
  "lastIndexOf s p = lastIndexOfFrom s p (int (length s))"

definition substring :: "string \<Rightarrow> int \<Rightarrow> int \<Rightarrow> string" where
  \<comment> \<open>\<^verbatim>\<open>s.substring(a, b)\<close>: both ends clamped to \<open>0 .. length s\<close>, swapped when \<open>a > b\<close>\<close>
  "substring s a b =
     (let a' = min (nat a) (length s); b' = min (nat b) (length s)
      in take (max a' b' - min a' b') (drop (min a' b') s))"

definition substringFrom :: "string \<Rightarrow> int \<Rightarrow> string" where
  \<comment> \<open>\<^verbatim>\<open>s.substring(a)\<close>\<close>
  "substringFrom s a = substring s a (int (length s))"

definition sliceIdx :: "string \<Rightarrow> int \<Rightarrow> nat" where
  \<comment> \<open>how \<^verbatim>\<open>slice\<close> reads an index: a negative one counts from the end\<close>
  "sliceIdx s i = (if i < 0 then nat (int (length s) + i) else min (nat i) (length s))"

definition slice :: "string \<Rightarrow> int \<Rightarrow> int \<Rightarrow> string" where
  \<comment> \<open>\<^verbatim>\<open>s.slice(a, b)\<close>: no swap, empty when the ends cross\<close>
  "slice s a b = take (sliceIdx s b - sliceIdx s a) (drop (sliceIdx s a) s)"

definition sliceFrom :: "string \<Rightarrow> int \<Rightarrow> string" where
  \<comment> \<open>\<^verbatim>\<open>s.slice(a)\<close>\<close>
  "sliceFrom s a = drop (sliceIdx s a) s"

definition isSpace :: "char \<Rightarrow> bool" where
  \<comment> \<open>white space and line terminators among the code units below 256:
      TAB, LF, VT, FF, CR, SPACE, NBSP\<close>
  "isSpace c = (c \<in> set [CHR 0x09, CHR 0x0A, CHR 0x0B, CHR 0x0C, CHR 0x0D, CHR 0x20, CHR 0xA0])"

definition trim :: "string \<Rightarrow> string" where
  \<comment> \<open>\<^verbatim>\<open>s.trim()\<close>\<close>
  "trim s = rev (dropWhile isSpace (rev (dropWhile isSpace s)))"

text \<open>
  A number of the host language, as far as this program can produce one: an integer that is
  a double, \<open>NaN\<close> (a failed \<^verbatim>\<open>parseInt\<close>, zero divided by zero) or an infinity (a count
  divided by zero, a run of digits beyond the range of the doubles). Every integer below
  \<open>2^53\<close> is a double; a greater one is a double when 53 bits hold it up to a power of
  two.
\<close>

datatype number = Num int | PosInfinity | NegInfinity | NaN

fun bits :: "nat \<Rightarrow> nat" where
  \<comment> \<open>the number of binary digits\<close>
  "bits n = (if n = 0 then 0 else Suc (bits (n div 2)))"

declare bits.simps [simp del]

definition roundToDouble :: "nat \<Rightarrow> nat option" where
  \<comment> \<open>the double next to an integer, ties to the even one; \<open>None\<close> when that is beyond the
      greatest double\<close>
  "roundToDouble n =
     (if n < 2 ^ 53 then Some n
      else
        (let k = bits n - 53;
             q = n div 2 ^ k;
             r = n mod 2 ^ k;
             half = 2 ^ (k - 1);
             q = (if half < r \<or> (r = half \<and> odd q) then q + 1 else q);
             m = q * 2 ^ k
         in if 2 ^ 1024 \<le> m then None else Some m))"

definition toNumber :: "int \<Rightarrow> number" where
  \<comment> \<open>the number that an integer of mathematics becomes\<close>
  "toNumber i =
     (if 0 \<le> i then (case roundToDouble (nat i) of Some m \<Rightarrow> Num (int m) | None \<Rightarrow> PosInfinity)
      else (case roundToDouble (nat (- i)) of Some m \<Rightarrow> Num (- int m) | None \<Rightarrow> NegInfinity))"

definition isDigit :: "char \<Rightarrow> bool" where
  "isDigit c = (c \<in> set ''0123456789'')"

definition digitValue :: "char \<Rightarrow> nat" where
  "digitValue c = of_char c - 48"

definition parseInt :: "string \<Rightarrow> number" where
  \<comment> \<open>\<^verbatim>\<open>parseInt(s, 10)\<close>: leading white space, a sign, then the longest run of digits; the
      integer they spell is rounded to a double\<close>
  "parseInt s =
     (let t = dropWhile isSpace s;
          (sign, t) = (case t of
                         c # r \<Rightarrow> if c = CHR ''-'' then (-1, r)
                                  else if c = CHR ''+'' then (1, r) else (1, t)
                       | [] \<Rightarrow> (1, t));
          ds = takeWhile isDigit t
      in if ds = [] then NaN
         else toNumber (sign * int (foldl (\<lambda>a c. 10 * a + digitValue c) 0 ds)))"

function decimal :: "nat \<Rightarrow> string" where
  "decimal n =
     (if n < 10 then [''0123456789'' ! n]
      else decimal (n div 10) @ [''0123456789'' ! (n mod 10)])"
  by pat_completeness auto
termination
  by (relation "measure id") auto

declare decimal.simps [simp del]

text \<open>
  \<^verbatim>\<open>Number.prototype.toString\<close> for a double \<open>x\<close> that is an integer of at least \<open>2^53\<close>: the
  digits are those of the least number of digits \<open>k\<close> for which some \<open>s\<close> of \<open>k\<close> digits,
  followed by zeros up to \<open>n\<close> digits in all, is rounded to \<open>x\<close>; of two such \<open>s\<close> the one
  nearer to \<open>x\<close> is taken, the even one when they are as near. \<open>shortest x d k\<close> looks
  for them from \<open>k\<close> digits on, \<open>d\<close> being the number of digits of \<open>x\<close>, and returns \<open>s\<close>
  and \<open>n\<close>.
\<close>

definition nearer :: "nat \<Rightarrow> nat \<Rightarrow> nat \<Rightarrow> nat \<Rightarrow> nat" where
  \<comment> \<open>of \<open>a\<close> and \<open>b = a + 1\<close>, times \<open>w\<close>, the one nearer to \<open>x\<close>\<close>
  "nearer x w a b =
     (if x - a * w < b * w - x then a
      else if b * w - x < x - a * w then b
      else if even a then a else b)"

function shortest :: "nat \<Rightarrow> nat \<Rightarrow> nat \<Rightarrow> nat \<times> nat" where
  "shortest x d k =
     (if d \<le> k then (x, d)
      else
        (let w = 10 ^ (d - k);
             a = x div w;
             b = a + 1;
             fits = (\<lambda>s. s < 10 ^ k \<and> roundToDouble (s * w) = Some x)
         in if fits a \<and> fits b then (nearer x w a b, d)
            else if fits a then (a, d)
            else if fits b then (b, d)
            else shortest x d (Suc k)))"
  by pat_completeness auto
termination
  by (relation "measure (\<lambda>(x, d, k). d - k)") auto

declare shortest.simps [simp del]

definition showDouble :: "nat \<Rightarrow> string" where
  "showDouble x =
     (if x < 2 ^ 53 then decimal x
      else
        (let d = length (decimal x);
             (s, n) = (if roundToDouble (10 ^ d) = Some x then (1, Suc d) else shortest x d 1);
             digits = decimal s;
             k = length digits
         in if n \<le> 21 then digits @ replicate (n - k) CHR ''0''
            else if k = 1 then digits @ ''e+'' @ decimal (n - 1)
            else take 1 digits @ ''.'' @ drop 1 digits @ ''e+'' @ decimal (n - 1)))"

definition numberToString :: "number \<Rightarrow> string" where
  \<comment> \<open>how a number reads when it is concatenated to a string\<close>
  "numberToString x =
     (case x of
        Num i \<Rightarrow> if i < 0 then ''-'' @ showDouble (nat (- i)) else showDouble (nat i)
      | PosInfinity \<Rightarrow> ''Infinity''
      | NegInfinity \<Rightarrow> ''-Infinity''
      | NaN \<Rightarrow> ''NaN'')"

definition minusOne :: "number \<Rightarrow> number" where
  \<comment> \<open>\<^verbatim>\<open>x - 1\<close>: the difference is rounded to a double\<close>
  "minusOne x = (case x of Num i \<Rightarrow> toNumber (i - 1) | _ \<Rightarrow> x)"

fun stripLineNumber :: "string \<Rightarrow> string" where
  \<comment> \<open>\<^verbatim>\<open>s.replace(/\d+:/, "")\<close>: the first run of digits that ends in a colon goes, once\<close>
  "stripLineNumber [] = []"
| "stripLineNumber (c # cs) =
     (if isDigit c \<and> startsWith (dropWhile isDigit cs) '':'' then drop 1 (dropWhile isDigit cs)
      else c # stripLineNumber cs)"

function stripAccess :: "string \<Rightarrow> string" where
  \<comment> \<open>\<^verbatim>\<open>s.replace(/\s*(public:|private:|protected:)/g, "")\<close>: every keyword goes, with the
      white space in front of it\<close>
  "stripAccess [] = []"
| "stripAccess (c # cs) =
     (let r = dropWhile isSpace (c # cs) in
      if startsWith r ''public:'' then stripAccess (drop 7 r)
      else if startsWith r ''private:'' then stripAccess (drop 8 r)
      else if startsWith r ''protected:'' then stripAccess (drop 10 r)
      else c # stripAccess cs)"
  by pat_completeness auto
termination
proof (relation "measure length")
  have le: "length (dropWhile isSpace (c # cs)) \<le> Suc (length cs)" for c cs
    using length_dropWhile_le [of isSpace "c # cs"] by simp
  have pos: "0 < length r" if "startsWith r (k # ks)" for r k ks
    using that by (cases r) (auto simp: startsWith_def)
  fix c cs r
  assume r: "r = dropWhile isSpace (c # cs)"
  show "startsWith r ''public:'' \<Longrightarrow> (drop 7 r, c # cs) \<in> measure length"
    using le [of c cs] pos [of r] r by auto
  show "\<not> startsWith r ''public:'' \<Longrightarrow> startsWith r ''private:''
      \<Longrightarrow> (drop 8 r, c # cs) \<in> measure length"
    using le [of c cs] pos [of r] r by auto
  show "\<not> startsWith r ''public:'' \<Longrightarrow> \<not> startsWith r ''private:''
      \<Longrightarrow> startsWith r ''protected:'' \<Longrightarrow> (drop 10 r, c # cs) \<in> measure length"
    using le [of c cs] pos [of r] r by auto
qed auto

declare stripAccess.simps(2) [simp del]

section \<open>The decoder: gdbInfoDecoder.ts\<close>

subsection \<open>Data\<close>

text \<open>
  One element of an \<open>identifiersList\<close>; an optional field of the source that is
  \<^verbatim>\<open>undefined\<close> is \<open>None\<close>.
\<close>

record identifierInfo =
  "identifier" :: string
  "type" :: "string option"
  typeValue :: "int option"
  address :: "string option"
  classHierarchy :: "string option"

record gdbVariableInfo =
  filename :: string
  identifiersList :: "identifierInfo list"

type_synonym TgdbVariablesInfo = "gdbVariableInfo list"

text \<open>
  \<^verbatim>\<open>TgdbIdentifiersList\<close>, whose elements have the one field \<^verbatim>\<open>identifier\<close>, is a list of
  strings.
\<close>

type_synonym TgdbIdentifiersList = "string list"

subsection \<open>The recursion guard\<close>

definition checkClassRecursion :: "string \<Rightarrow> string \<Rightarrow> bool" where
  "checkClassRecursion hierarchy name =
     (let pos = indexOf hierarchy name in pos \<noteq> -1)"

subsection \<open>Storage class specifiers\<close>

definition dropMarker :: "string \<Rightarrow> string \<times> bool \<Rightarrow> string \<times> bool" where
  \<comment> \<open>one \<^verbatim>\<open>if (tmpStr.startsWith(M)) { tmpStr = tmpStr.substring(M.length); found = true; }\<close>\<close>
  "dropMarker marker sf =
     (case sf of (tmpStr, bFound) \<Rightarrow>
        if startsWith tmpStr marker then (substringFrom tmpStr (int (length marker)), True)
        else (tmpStr, bFound))"

definition storageClassRound :: "string \<Rightarrow> string \<times> bool" where
  \<comment> \<open>one turn of the loop of \<^verbatim>\<open>removeStorageClassSpecifier\<close>: the four tests in order\<close>
  "storageClassRound tmpStr =
     dropMarker ''const '' (dropMarker ''volatile '' (dropMarker ''static ''
       (dropMarker ''extern '' (tmpStr, False))))"

lemma dropMarker_length:
  "dropMarker m (s, b) = (t, f) \<Longrightarrow>
     length t \<le> length s \<and> (f \<and> \<not> b \<longrightarrow> m \<noteq> [] \<longrightarrow> length t < length s)"
proof -
  have "length m \<le> length s" if "take (length m) s = m"
    using that by (metis length_take min.cobounded1)
  then show "dropMarker m (s, b) = (t, f) \<Longrightarrow>
     length t \<le> length s \<and> (f \<and> \<not> b \<longrightarrow> m \<noteq> [] \<longrightarrow> length t < length s)"
    by (cases m) (auto simp: dropMarker_def substringFrom_def substring_def startsWith_def
      split: if_splits)
qed

lemma storageClassRound_length:
  assumes "storageClassRound s = (t, True)"
  shows "length t < length s"
proof -
  obtain s1 b1 where r1: "dropMarker ''extern '' (s, False) = (s1, b1)" by force
  obtain s2 b2 where r2: "dropMarker ''static '' (s1, b1) = (s2, b2)" by force
  obtain s3 b3 where r3: "dropMarker ''volatile '' (s2, b2) = (s3, b3)" by force
  have r4: "dropMarker ''const '' (s3, b3) = (t, True)"
    using assms r1 r2 r3 by (simp add: storageClassRound_def)
  from dropMarker_length [OF r1] dropMarker_length [OF r2]
    dropMarker_length [OF r3] dropMarker_length [OF r4]
  show ?thesis by (cases b1; cases b2; cases b3) auto
qed

function removeStorageClassSpecifier :: "string \<Rightarrow> string" where
  "removeStorageClassSpecifier tmpStr =
     (case storageClassRound tmpStr of
        (t, bStorageClassFound) \<Rightarrow>
          if bStorageClassFound then removeStorageClassSpecifier t else t)"
  by pat_completeness auto
termination
  by (relation "measure length") (auto intro: storageClassRound_length [OF sym])

declare removeStorageClassSpecifier.simps [simp del]

subsection \<open>The classifier\<close>

definition UNSIGNED_8 :: int where "UNSIGNED_8 = 1"
definition SIGNED_8 :: int where "SIGNED_8 = 2"
definition UNSIGNED_16 :: int where "UNSIGNED_16 = 3"
definition SIGNED_16 :: int where "SIGNED_16 = 4"
definition UNSIGNED_32 :: int where "UNSIGNED_32 = 5"
definition SIGNED_32 :: int where "SIGNED_32 = 6"
definition UNSIGNED_64 :: int where "UNSIGNED_64 = 7"
definition SIGNED_64 :: int where "SIGNED_64 = 8"
definition FLOAT :: int where "FLOAT = 9"
definition DOUBLE :: int where "DOUBLE = 10"

definition TYPE_VALUE :: "int set" where
  \<comment> \<open>the members of the enum \<^verbatim>\<open>TYPE_VALUE\<close>\<close>
  "TYPE_VALUE = {UNSIGNED_8, SIGNED_8, UNSIGNED_16, SIGNED_16, UNSIGNED_32, SIGNED_32,
                 UNSIGNED_64, SIGNED_64, FLOAT, DOUBLE}"

definition tmpSize :: "string \<Rightarrow> string" where
  \<comment> \<open>the size read off the reply: what follows the first \<^verbatim>\<open>"= "\<close>, trimmed. When the
      marker is missing, \<open>pos\<close> is \<open>-1 + 2\<close>.\<close>
  "tmpSize sizeStr =
     (let pos = indexOf sizeStr ''= '' + int (length ''= '')
      in trim (substring sizeStr pos (int (length sizeStr))))"

definition computeTypeValue :: "string \<Rightarrow> string \<Rightarrow> int" where
  "computeTypeValue expr sizeStr =
     (let tmpStr = removeStorageClassSpecifier (trim expr) in
      if lastIndexOf tmpStr ''*'' \<noteq> -1 then
        (let typeValue = UNSIGNED_16;
             typeValue = (if tmpSize sizeStr = ''1'' then UNSIGNED_8 else typeValue);
             typeValue = (if tmpSize sizeStr = ''4'' then UNSIGNED_32 else typeValue)
         in typeValue)
      else if startsWith tmpStr ''enum'' then
        (let typeValue = SIGNED_16;
             typeValue = (if tmpSize sizeStr = ''1'' then SIGNED_8 else typeValue)
         in typeValue)
      else if tmpStr \<in> set [''unsigned char'', ''_Bool''] then UNSIGNED_8
      else if tmpStr \<in> set [''char'', ''signed char''] then SIGNED_8
      else if tmpStr \<in> set [''unsigned short'', ''unsigned short int'', ''short unsigned int'']
        then UNSIGNED_16
      else if tmpStr \<in> set [''short'', ''short int'', ''signed short'', ''signed short int'',
                             ''short signed int'']
        then SIGNED_16
      else if tmpStr = ''unsigned int'' then
        (if tmpSize sizeStr = ''2'' then UNSIGNED_16 else UNSIGNED_32)
      else if tmpStr \<in> set [''int'', ''signed int''] then
        (if tmpSize sizeStr = ''2'' then SIGNED_16 else SIGNED_32)
      else if tmpStr \<in> set [''unsigned long'', ''unsigned long int'', ''long unsigned int'']
        then UNSIGNED_32
      else if tmpStr \<in> set [''long'', ''long int'', ''signed long'', ''signed long int'',
                             ''long signed int'']
        then SIGNED_32
      else if tmpStr \<in> set [''unsigned long long'', ''unsigned long long int'',
                             ''long long unsigned int'']
        then UNSIGNED_64
      else if tmpStr \<in> set [''long long'', ''long long int'', ''signed long long'',
                             ''signed long long int'', ''long long signed int'']
        then SIGNED_64
      else if tmpStr = ''float'' then FLOAT
      else if tmpStr \<in> set [''double'', ''long double''] then DOUBLE
      else -1)"

definition extractAddress :: "string \<Rightarrow> string" where
  "extractAddress expr =
     (let pos = indexOf expr ''= '' in
      if pos \<noteq> -1 then substring expr (pos + int (length ''= '')) (int (length expr))
      else '''')"

subsection \<open>Matching braces\<close>

lemma findFrom_bounds:
  "findFrom p s k \<noteq> -1 \<Longrightarrow> int k \<le> findFrom p s k \<and> findFrom p s k + int (length p) \<le> int (k + length s)"
proof (induction s arbitrary: k)
  case Nil
  then show ?case by (auto split: if_splits)
next
  case (Cons c cs)
  show ?case
  proof (cases "startsWith (c # cs) p")
    case True
    then have "length p \<le> length (c # cs)"
      unfolding startsWith_def by (metis length_take min.cobounded1)
    with True show ?thesis by simp
  next
    case False
    with Cons.prems have "findFrom p cs (Suc k) \<noteq> -1" by simp
    from Cons.IH [OF this] False show ?thesis by simp
  qed
qed

lemma indexOfFrom_bounds:
  assumes "indexOfFrom s p from \<noteq> -1"
  shows "0 \<le> indexOfFrom s p from"
    "indexOfFrom s p from + int (length p) \<le> int (length s)"
    "p \<noteq> [] \<Longrightarrow> from \<le> indexOfFrom s p from"
proof -
  let ?k = "min (nat from) (length s)"
  have f: "findFrom p (drop ?k s) ?k \<noteq> -1"
    using assms by (simp add: indexOfFrom_def Let_def)
  have r: "indexOfFrom s p from = findFrom p (drop ?k s) ?k"
    by (simp add: indexOfFrom_def Let_def)
  from findFrom_bounds [OF f]
  have b: "int ?k \<le> indexOfFrom s p from"
    "indexOfFrom s p from + int (length p) \<le> int (?k + length (drop ?k s))"
    unfolding r by auto
  from b(1) show "0 \<le> indexOfFrom s p from" by linarith
  from b(2) show "indexOfFrom s p from + int (length p) \<le> int (length s)" by simp
  show "from \<le> indexOfFrom s p from" if ne: "p \<noteq> []"
  proof (cases "nat from \<le> length s")
    case True
    with b(1) have "int (nat from) \<le> indexOfFrom s p from" by (simp only: min_absorb1)
    then show ?thesis by linarith
  next
    case False
    then have "drop ?k s = []" by simp
    with f ne have False by (auto split: if_splits)
    then show ?thesis ..
  qed
qed

function braceLoop :: "string \<Rightarrow> nat \<Rightarrow> int \<Rightarrow> int \<Rightarrow> int" where
  \<comment> \<open>the \<^verbatim>\<open>while (nbOpen !== 0)\<close> loop of \<^verbatim>\<open>getMatchingClosingBrace\<close>\<close>
  "braceLoop block nbOpen nextOpen nextClose =
     (if nbOpen = 0 then nextClose
      else if nextClose = -1 then -1
      else
        (let (nbOpen, nextOpen) =
               (if nextOpen \<noteq> -1 \<and> nextOpen < nextClose
                then (nbOpen + 1, indexOfFrom block ''{'' (nextOpen + 1))
                else (nbOpen, nextOpen));
             nbOpen = nbOpen - 1
         in if nbOpen > 0
            then braceLoop block nbOpen nextOpen (indexOfFrom block ''}'' (nextClose + 1))
            else braceLoop block nbOpen nextOpen nextClose))"
  by pat_completeness auto
termination
proof (relation "measures [\<lambda>(block, nbOpen, nextOpen, nextClose).
          (if nextClose = -1 then 0
           else if nextClose < -1 then length block + 3
           else 1 + nat (int (length block) + 1 - nextClose)),
        \<lambda>(block, nbOpen, nextOpen, nextClose). nbOpen]", goal_cases)
  case 1
  then show ?case by simp
next
  case (2 block nbOpen nextOpen nextClose x xa y xb)
  let ?c = "indexOfFrom block ''}'' (nextClose + 1)"
  show ?case
  proof (cases "?c = -1")
    case True
    with 2 show ?thesis by simp
  next
    case False
    from indexOfFrom_bounds [OF False] have "0 \<le> ?c" "nextClose + 1 \<le> ?c"
      "?c + 1 \<le> int (length block)" by simp_all
    with 2 False show ?thesis by auto
  qed
next
  case (3 block nbOpen nextOpen nextClose x xa y xb)
  then show ?case by (auto split: if_splits)
qed

declare braceLoop.simps [simp del]

definition getMatchingClosingBrace :: "string \<Rightarrow> int" where
  "getMatchingClosingBrace block =
     (let firstOpenBrace = indexOf block ''{'' in
      if firstOpenBrace = -1 then 0
      else braceLoop block 1 (indexOfFrom block ''{'' (firstOpenBrace + 1))
             (indexOfFrom block ''}'' (firstOpenBrace + 1)))"

subsection \<open>Identifiers\<close>

definition declaratorText :: "string \<Rightarrow> string" where
  \<comment> \<open>the first two statements of \<^verbatim>\<open>extractIdentifiers\<close>: access keywords and the line
      number are dropped, the rest is trimmed\<close>
  "declaratorText expr = trim (stripLineNumber (stripAccess expr))"

definition extractIdentifiers :: "string \<Rightarrow> string \<Rightarrow> bool \<Rightarrow> string list" where
  "extractIdentifiers expr rootIdentifier bExpandTableElements =
     (let tmpStr = declaratorText expr;
          tblStartIdx = indexOf tmpStr ''['' in
      if tblStartIdx \<noteq> -1 then
        (let tblName = trim (substring tmpStr (lastIndexOfFrom tmpStr '' '' tblStartIdx + 1)
                               tblStartIdx) in
         if indexOf (substringFrom tmpStr (tblStartIdx + 1)) ''['' \<noteq> -1 then ['''']
         else
           (let tblName = (if lastIndexOf tblName ''*'' \<noteq> -1
                           then trim (substringFrom tblName (lastIndexOf tblName ''*'' + 1))
                           else tblName);
                sizeStr = substring tmpStr (tblStartIdx + 1) (indexOfFrom tmpStr '']'' tblStartIdx);
                lastTableIdx = minusOne (parseInt sizeStr)
            in if bExpandTableElements
               then [rootIdentifier @ tblName @ ''['' @ numberToString lastTableIdx @ '']'']
               else [rootIdentifier @ tblName @ ''[0]'']))
      else if lastIndexOf tmpStr ''*'' \<noteq> -1 then
        (let endIdx = indexOf tmpStr '')'';
             tmpStr = (if endIdx \<noteq> -1 then substring tmpStr 0 endIdx else tmpStr);
             tmpStr = trim (substringFrom tmpStr (lastIndexOf tmpStr ''*'' + 1));
             tmpStr = (if lastIndexOf tmpStr '' '' \<noteq> -1
                       then trim (substringFrom tmpStr (lastIndexOf tmpStr '' '' + 1))
                       else tmpStr)
         in [rootIdentifier @ tmpStr])
      else if indexOf tmpStr '' : '' \<noteq> -1 then ['''']
      else [rootIdentifier @ trim (substringFrom tmpStr (lastIndexOf tmpStr '' '' + 1))])"

datatype scanned = NoMore | Scanned string int

definition nextDeclaration :: "string \<Rightarrow> scanned" where
  \<comment> \<open>the first half of the loop body of \<^verbatim>\<open>buildVarList\<close>: the expression up to the next
      semicolon, a brace block cut out, and the index of that semicolon; \<open>NoMore\<close> where
      the source returns (a brace is left open) or breaks (no semicolon is left)\<close>
  "nextDeclaration tmpStr =
     (let firstSemiColon = indexOf tmpStr '';'';
          firstOpenBrace = indexOf tmpStr ''{'';
          closeBraceIdx = (if firstOpenBrace \<noteq> -1 \<and> firstOpenBrace < firstSemiColon
                           then getMatchingClosingBrace tmpStr else 0) in
      if closeBraceIdx = -1 then NoMore
      else
        (let endIdx = indexOfFrom tmpStr '';'' closeBraceIdx in
         if endIdx = -1 then NoMore
         else if closeBraceIdx \<noteq> 0
           then Scanned (substring tmpStr 0 firstOpenBrace
                             @ substring tmpStr (closeBraceIdx + 1) endIdx) endIdx
           else Scanned (substring tmpStr 0 endIdx) endIdx))"

lemma nextDeclaration_endIdx: "nextDeclaration s = Scanned e endIdx \<Longrightarrow> 0 \<le> endIdx"
  by (auto simp: nextDeclaration_def Let_def split: if_splits dest: indexOfFrom_bounds(1))

function buildVarListFrom ::
  "string \<Rightarrow> string \<Rightarrow> bool \<Rightarrow> nat \<Rightarrow> TgdbIdentifiersList \<Rightarrow> TgdbIdentifiersList" where
  \<comment> \<open>the loop of \<^verbatim>\<open>buildVarList\<close> from \<open>startIdx\<close> on\<close>
  "buildVarListFrom fileBlock rootIdentifier expand startIdx variablesList =
     (if startIdx < length fileBlock then
        (case nextDeclaration (substringFrom fileBlock (int startIdx)) of
           NoMore \<Rightarrow> variablesList
         | Scanned expr endIdx \<Rightarrow>
             (let identifiers = extractIdentifiers expr rootIdentifier expand;
                  variablesList = (case identifiers of
                                     [] \<Rightarrow> variablesList
                                   | i0 # _ \<Rightarrow> if i0 \<noteq> '''' then variablesList @ identifiers
                                              else variablesList)
              in buildVarListFrom fileBlock rootIdentifier expand (startIdx + nat endIdx + 1)
                   variablesList))
      else variablesList)"
  by pat_completeness auto
termination
  by (relation "measure (\<lambda>(fileBlock, rootIdentifier, expand, startIdx, variablesList).
        length fileBlock - startIdx)") auto

declare buildVarListFrom.simps [simp del]

definition buildVarList :: "string \<Rightarrow> string \<Rightarrow> bool \<Rightarrow> TgdbIdentifiersList" where
  "buildVarList fileBlock rootIdentifier expand =
     buildVarListFrom fileBlock rootIdentifier expand 0 []"

subsection \<open>Types\<close>

definition scopeClassRound :: "string \<Rightarrow> string \<times> bool" where
  \<comment> \<open>one turn of the loop of \<^verbatim>\<open>removeScopeClassSpecifier\<close>: \<^verbatim>\<open>some\<close> visits the three
      markers in order, its callback never answering true\<close>
  "scopeClassRound tmpStr =
     dropMarker ''private '' (dropMarker ''protected '' (dropMarker ''public '' (tmpStr, False)))"

lemma scopeClassRound_length:
  assumes "scopeClassRound s = (t, True)"
  shows "length t < length s"
proof -
  obtain s1 b1 where r1: "dropMarker ''public '' (s, False) = (s1, b1)" by force
  obtain s2 b2 where r2: "dropMarker ''protected '' (s1, b1) = (s2, b2)" by force
  have r3: "dropMarker ''private '' (s2, b2) = (t, True)"
    using assms r1 r2 by (simp add: scopeClassRound_def)
  from dropMarker_length [OF r1] dropMarker_length [OF r2] dropMarker_length [OF r3]
  show ?thesis by (cases b1; cases b2) auto
qed

function removeScopeClassSpecifier :: "string \<Rightarrow> string" where
  "removeScopeClassSpecifier tmpStr =
     (case scopeClassRound tmpStr of
        (t, bScopeClassFound) \<Rightarrow>
          if bScopeClassFound then removeScopeClassSpecifier t else t)"
  by pat_completeness auto
termination
  by (relation "measure length") (auto intro: scopeClassRound_length [OF sym])

declare removeScopeClassSpecifier.simps [simp del]

definition orEmpty :: "string option \<Rightarrow> string" where
  \<comment> \<open>\<^verbatim>\<open>rootHierarchy || ""\<close>\<close>
  "orEmpty h = (case h of None \<Rightarrow> '''' | Some t \<Rightarrow> t)"

definition className :: "string \<Rightarrow> string" where
  \<comment> \<open>the class name \<^verbatim>\<open>extractType\<close> reads off a reply that starts with \<^verbatim>\<open>class\<close>\<close>
  "className tmpStr =
     (let firstOpenBrace = indexOf tmpStr ''{'';
          firstColonLeadingSpace = indexOf tmpStr '' : ''
      in trim (substring tmpStr 5
                 (if firstColonLeadingSpace = -1 then firstOpenBrace
                  else firstColonLeadingSpace)))"

fun lastIndexWhere :: "('a \<Rightarrow> bool) \<Rightarrow> 'a list \<Rightarrow> nat option" where
  \<comment> \<open>what the \<^verbatim>\<open>forEach\<close> leaves in \<^verbatim>\<open>indexRootIdentifier\<close>: the last index that matches;
      \<open>None\<close> is the \<open>-1\<close> it starts with\<close>
  "lastIndexWhere P [] = None"
| "lastIndexWhere P (x # xs) =
     (case lastIndexWhere P xs of
        Some j \<Rightarrow> Some (Suc j)
      | None \<Rightarrow> if P x then Some 0 else None)"

definition spliceOne :: "nat \<Rightarrow> 'a list \<Rightarrow> 'a list" where
  \<comment> \<open>\<^verbatim>\<open>xs.splice(i, 1)\<close>\<close>
  "spliceOne i xs = take i xs @ drop (Suc i) xs"

fun removeRootIdentifier :: "string \<Rightarrow> string \<Rightarrow> TgdbVariablesInfo \<Rightarrow> TgdbVariablesInfo" where
  \<comment> \<open>in the first entry of the file, the last line that carries \<open>rootIdentifier\<close> goes\<close>
  "removeRootIdentifier file rootIdentifier [] = []"
| "removeRootIdentifier file rootIdentifier (entry # rest) =
     (if filename entry = file then
        (case lastIndexWhere (\<lambda>item. identifier item = rootIdentifier) (identifiersList entry) of
           Some indexRootIdentifier \<Rightarrow>
             entry\<lparr>identifiersList := spliceOne indexRootIdentifier (identifiersList entry)\<rparr>
               # rest
         | None \<Rightarrow> entry # rest)
      else entry # removeRootIdentifier file rootIdentifier rest)"

fun addNewIdentifiers ::
  "string \<Rightarrow> identifierInfo list \<Rightarrow> TgdbVariablesInfo \<Rightarrow> TgdbVariablesInfo" where
  \<comment> \<open>the lines go to the first entry of the file, which is appended when there is none\<close>
  "addNewIdentifiers file items [] = [\<lparr>filename = file, identifiersList = items\<rparr>]"
| "addNewIdentifiers file items (variableInfo # rest) =
     (if filename variableInfo = file
      then variableInfo\<lparr>identifiersList := identifiersList variableInfo @ items\<rparr> # rest
      else variableInfo # addNewIdentifiers file items rest)"

text \<open>
  \<open>baseClasses s\<close> stands for the list of first groups that the repeated
  \<^verbatim>\<open>regexInherit.exec\<close> finds in the inheritance list \<open>s\<close>; the regular expression engine
  belongs to the runtime and is a parameter. The function returns the type together with
  the two collections, which the source updates in place.
\<close>

definition extractType ::
  "(string \<Rightarrow> string list) \<Rightarrow> TgdbVariablesInfo \<Rightarrow> TgdbVariablesInfo \<Rightarrow> string \<Rightarrow> string
     \<Rightarrow> string \<Rightarrow> string option \<Rightarrow> bool \<Rightarrow> string \<times> TgdbVariablesInfo \<times> TgdbVariablesInfo" where
  "extractType baseClasses variablesInfo newVariablesInfo file expr rootIdentifier rootHierarchy
       bExpandTableElements =
     (let tmpStr = removeStorageClassSpecifier (trim expr) in
      if startsWith tmpStr ''struct '' \<or> startsWith tmpStr ''union ''
         \<or> startsWith tmpStr ''class '' then
        (let firstOpenBrace = indexOf tmpStr ''{'';
             firstColonLeadingSpace = indexOf tmpStr '' : '' in
         if firstOpenBrace = -1 then ('''', variablesInfo, newVariablesInfo)
         else if startsWith tmpStr ''class ''
                 \<and> checkClassRecursion (orEmpty rootHierarchy) (className tmpStr)
           then ('''', variablesInfo, newVariablesInfo)
         else
           (let hierarchy = (if startsWith tmpStr ''class ''
                             then orEmpty rootHierarchy @ ''.'' @ className tmpStr else '''');
                closeBraceIdx = getMatchingClosingBrace tmpStr in
            if closeBraceIdx = -1 then ('''', variablesInfo, newVariablesInfo)
            else if indexOfFrom tmpStr ''*'' (closeBraceIdx + 1) = -1 then
              (let blockStr = substring tmpStr (firstOpenBrace + 1) closeBraceIdx;
                   variablesList = buildVarList blockStr (rootIdentifier @ ''.'')
                                     bExpandTableElements;
                   members = map (\<lambda>newEntry.
                                \<lparr>identifier = newEntry, type = None, typeValue = None,
                                 address = None, classHierarchy = Some hierarchy\<rparr>)
                              variablesList;
                   bases = (if startsWith tmpStr ''class '' \<and> firstColonLeadingSpace \<noteq> -1
                            then map (\<lambda>baseClass.
                                   \<lparr>identifier = rootIdentifier,
                                    type = Some (''?'' @ trim (removeScopeClassSpecifier
                                                                (trim baseClass))),
                                    typeValue = None, address = None, classHierarchy = None\<rparr>)
                                 (baseClasses (substring tmpStr (firstColonLeadingSpace + 2)
                                                 firstOpenBrace))
                            else [])
               in ('''', removeRootIdentifier file rootIdentifier variablesInfo,
                   addNewIdentifiers file (members @ bases) newVariablesInfo))
            else (tmpStr, variablesInfo, newVariablesInfo)))
      else (tmpStr, variablesInfo, newVariablesInfo))"

subsection \<open>The list of variables\<close>





section \<open>The controller: index.ts\<close>

subsection \<open>Data\<close>

datatype State =
  SET_METHODS_OFF | SET_TYPEDEFS_OFF | IDLE | START_GDB | GET_VARIABLES_INFO
  | GET_TYPE | GET_SIZE | GET_ADDRESS

text \<open>The members of \<^verbatim>\<open>InformationType\<close> carry a prefix: \<open>TYPE\<close> is taken in the logic.\<close>

datatype InformationType = INFO_IDENTIFIER | INFO_TYPE | INFO_SIZE | INFO_ADDRESS

datatype Status =
  ELFPARSER_OK | ELFPARSER_ELFFILENAME_NOT_FOUND | ELFPARSER_PARSING_ONGOING | ELFPARSER_ERR

text \<open>
  One entry of \<^verbatim>\<open>TvariablesInfo\<close>, the list handed to the result callback. Its fields are
  \<^verbatim>\<open>name\<close>, \<^verbatim>\<open>address\<close> and \<^verbatim>\<open>type\<close> in the source; they carry a prefix here because a
  field name belongs to one record only.
\<close>

record variableInfo =
  vname :: string
  vaddress :: string
  vtype :: int

text \<open>
  A callback is a reference; what the parser does to the outside world (spawning the
  debugger, writing to its input, calling a callback) is logged in order in \<open>out\<close>.
\<close>

type_synonym callbackRef = nat

datatype event =
  Spawn string
  | Write string
  | Result callbackRef "variableInfo list"
  | Progress callbackRef number
  | TypeError

text \<open>
  The fields of the class \<^verbatim>\<open>ElfParser\<close>. \<^verbatim>\<open>startTime\<close> and \<^verbatim>\<open>endTime\<close> only feed a log
  message and are left out; \<open>gdbProcess\<close> holds the file the debugger was started on.

  An element of \<open>gdbVariablesInfo\<close> is an object, and one object can sit in the lists of
  several entries: the merge of the new elements pushes the same object to every entry of
  its file. The lists hold the state of the objects. The last two fields, which the class
  does not have, hold which object sits where: \<open>identities\<close> gives, for each entry and each
  place of its list, the number of the object there, and \<open>nextIdentity\<close> is the first number
  that no object bears. A write to an object shows at every place that holds it.
\<close>

record ElfParser =
  currentState :: State
  previousState :: State
  callback :: "callbackRef option"
  expandTableElements :: bool
  progressCallback :: "callbackRef option"
  gdbProcess :: "string option"
  dataBuffer :: string
  gdbVariablesInfo :: TgdbVariablesInfo
  newGdbVariablesInfo :: TgdbVariablesInfo
  gdbResponseCounter :: nat
  numberOfVariables :: nat
  progressStatus :: number
  currentFilenameIdx :: nat
  currentIdentifierIdx :: nat
  out :: "event list"
  identities :: "nat list list"
  nextIdentity :: nat

definition GDB_PROMPT :: string where "GDB_PROMPT = ''(gdb) ''"

definition constructor :: ElfParser where
  "constructor =
     \<lparr>currentState = IDLE, previousState = IDLE, callback = None,
      expandTableElements = False, progressCallback = None, gdbProcess = None,
      dataBuffer = '''', gdbVariablesInfo = [], newGdbVariablesInfo = [],
      gdbResponseCounter = 0, numberOfVariables = 0, progressStatus = Num 0,
      currentFilenameIdx = 0, currentIdentifierIdx = 0, out = [],
      identities = [], nextIdentity = 0\<rparr>"

definition emit :: "event \<Rightarrow> ElfParser \<Rightarrow> ElfParser" where
  "emit e p = p\<lparr>out := out p @ [e]\<rparr>"

definition callCallback :: "variableInfo list \<Rightarrow> ElfParser \<Rightarrow> ElfParser" where
  \<comment> \<open>\<^verbatim>\<open>this.callback(variablesInfo)\<close>; calling \<^verbatim>\<open>null\<close> throws\<close>
  "callCallback variablesInfo p =
     (case callback p of
        Some cb \<Rightarrow> emit (Result cb variablesInfo) p
      | None \<Rightarrow> emit TypeError p)"

subsection \<open>Starting a session\<close>

text \<open>
  \<open>existsSync\<close> is the file system as the call finds it. The three parameters are stored
  before the file and the state are looked at.
\<close>

definition readElf ::
  "(string \<Rightarrow> bool) \<Rightarrow> string \<Rightarrow> callbackRef \<Rightarrow> bool \<Rightarrow> callbackRef option \<Rightarrow> ElfParser
     \<Rightarrow> Status \<times> ElfParser" where
  "readElf existsSync elfFilename cb expand progressCb p0 =
     (let p = p0\<lparr>callback := Some cb, expandTableElements := expand,
                  progressCallback := progressCb\<rparr>;
          (status, p) =
            (if \<not> existsSync elfFilename then (ELFPARSER_ELFFILENAME_NOT_FOUND, p)
             else if currentState p \<noteq> IDLE then (ELFPARSER_PARSING_ONGOING, p)
             else (ELFPARSER_OK,
                   emit (Spawn elfFilename)
                     (p\<lparr>currentState := START_GDB, gdbProcess := Some elfFilename\<rparr>)));
          p = (if status \<noteq> ELFPARSER_OK then callCallback [] p else p)
      in (status, p))"

subsection \<open>Delivering the result\<close>

definition padStart :: "nat \<Rightarrow> char \<Rightarrow> string \<Rightarrow> string" where
  \<comment> \<open>\<^verbatim>\<open>s.padStart(n, c)\<close> for a one-character filler\<close>
  "padStart n c s = replicate (n - length s) c @ s"

fun insertSorted :: "('a \<Rightarrow> 'a \<Rightarrow> int) \<Rightarrow> 'a \<Rightarrow> 'a list \<Rightarrow> 'a list" where
  "insertSorted cmp x [] = [x]"
| "insertSorted cmp x (y # ys) =
     (if cmp x y < 0 then x # y # ys else y # insertSorted cmp x ys)"

definition sortBy :: "('a \<Rightarrow> 'a \<Rightarrow> int) \<Rightarrow> 'a list \<Rightarrow> 'a list" where
  \<comment> \<open>\<^verbatim>\<open>xs.sort(cmp)\<close>, a stable sort: each element goes behind the ones it does not precede\<close>
  "sortBy cmp xs = foldl (\<lambda>acc x. insertSorted cmp x acc) [] xs"

definition resultEntry :: "(string \<Rightarrow> string) \<Rightarrow> identifierInfo \<Rightarrow> variableInfo list" where
  \<comment> \<open>the body of the inner loop of \<^verbatim>\<open>sendVariablesInfoToClient\<close>: the test and the push\<close>
  "resultEntry toString16 element =
     (if address element \<noteq> None \<and> address element \<noteq> Some '''' \<and> typeValue element \<noteq> None
      then [\<lparr>vname = identifier element,
             vaddress = ''0x'' @ padStart 8 CHR ''0'' (toString16 (the (address element))),
             vtype = the (typeValue element)\<rparr>]
      else [])"

text \<open>
  \<open>toString16 a\<close> stands for \<^verbatim>\<open>Number(a).toString(16)\<close> and \<open>localeCompare\<close> for the
  host's \<^verbatim>\<open>String.prototype.localeCompare\<close>: both belong to the runtime, not to the
  program, and are parameters.
\<close>

definition sendVariablesInfoToClient ::
  "(string \<Rightarrow> string) \<Rightarrow> (string \<Rightarrow> string \<Rightarrow> int) \<Rightarrow> ElfParser \<Rightarrow> ElfParser" where
  "sendVariablesInfoToClient toString16 localeCompare p =
     (let variablesInfo =
            concat (map (\<lambda>entry. concat (map (resultEntry toString16) (identifiersList entry)))
                        (gdbVariablesInfo p));
          variablesInfo = sortBy (\<lambda>a b. localeCompare (vname a) (vname b)) variablesInfo
      in callCallback variablesInfo p)"

subsection \<open>Objects and the places that hold them\<close>




definition setElement :: "nat \<Rightarrow> nat \<Rightarrow> identifierInfo \<Rightarrow> TgdbVariablesInfo \<Rightarrow> TgdbVariablesInfo" where
  "setElement f i element variablesInfo =
     variablesInfo[f := (variablesInfo ! f)
                          \<lparr>identifiersList := (identifiersList (variablesInfo ! f))[i := element]\<rparr>]"






subsection \<open>Expanding arrays\<close>













subsection \<open>Cutting the output of the debugger into responses\<close>

text \<open>
  The \<^verbatim>\<open>while (this.dataBuffer !== "")\<close> loop of \<^verbatim>\<open>readData\<close>. The treatment of one
  response (the \<^verbatim>\<open>switch\<close>) never looks at the buffer; here it is the parameter \<open>treat\<close>,
  acting on the rest of the state, and may fail to return.
\<close>

function sliceResponses ::
  "(string \<Rightarrow> 's \<Rightarrow> 's option) \<Rightarrow> string \<Rightarrow> 's \<Rightarrow> (string \<times> 's) option" where
  "sliceResponses treat buffer st =
     (if buffer = [] then Some (buffer, st)
      else
        (let endGdbResponse = indexOf buffer GDB_PROMPT in
         if endGdbResponse = -1 then Some (buffer, st)
         else
           (let gdbResponse = slice buffer 0 (endGdbResponse + int (length GDB_PROMPT));
                buffer = sliceFrom buffer (endGdbResponse + int (length GDB_PROMPT))
            in case treat gdbResponse st of
                 None \<Rightarrow> None
               | Some st \<Rightarrow> sliceResponses treat buffer st)))"
  by pat_completeness auto
termination
proof (relation "measure (\<lambda>(treat, buffer, st). length buffer)", goal_cases)
  case 1
  then show ?case by simp
next
  case (2 treat buffer st e gdbResponse buffer' st')
  from 2 have "0 \<le> e" using indexOfFrom_bounds(1) [of buffer GDB_PROMPT 0]
    by (simp add: indexOf_def)
  with 2 show ?case by (simp add: sliceFrom_def sliceIdx_def GDB_PROMPT_def)
qed

declare sliceResponses.simps [simp del]

text \<open>
  The stream of the debugger has no encoding set, so a chunk of its output reaches
  \<^verbatim>\<open>readData\<close> as a \<^verbatim>\<open>Buffer\<close>, a list of bytes, whatever the signature of \<^verbatim>\<open>readData\<close> says.
  \<^verbatim>\<open>this.dataBuffer.concat(data)\<close> makes a string of the chunk, on its own, before it appends
  it. That conversion (\<^verbatim>\<open>Buffer.prototype.toString\<close>, which decodes UTF-8) belongs to the
  runtime and is the parameter \<open>toText\<close>.
\<close>

type_synonym Buffer = "char list"

definition receive ::
  "(Buffer \<Rightarrow> string) \<Rightarrow> (string \<Rightarrow> 's \<Rightarrow> 's option) \<Rightarrow> Buffer \<Rightarrow> string \<times> 's
     \<Rightarrow> (string \<times> 's) option" where
  \<comment> \<open>the framing of \<^verbatim>\<open>readData\<close>: the text of the chunk goes to the buffer, and once the
      buffer holds a prompt the responses are cut off it and treated one after the other\<close>
  "receive toText treat data bs =
     (case bs of (buffer, st) \<Rightarrow>
        (let buffer = buffer @ toText data in
         if indexOf buffer GDB_PROMPT = -1 then Some (buffer, st)
         else sliceResponses treat buffer st))"

text \<open>Feeding the chunks of the output to \<open>receive\<close>, one after the other.\<close>

fun feed ::
  "(Buffer \<Rightarrow> string) \<Rightarrow> (string \<Rightarrow> 's \<Rightarrow> 's option) \<Rightarrow> Buffer list \<Rightarrow> string \<times> 's
     \<Rightarrow> (string \<times> 's) option" where
  "feed toText treat [] bs = Some bs"
| "feed toText treat (data # chunks) bs =
     (case receive toText treat data bs of
        None \<Rightarrow> None
      | Some bs' \<Rightarrow> feed toText treat chunks bs')"

subsection \<open>Commands to the debugger\<close>



definition allElements :: "TgdbVariablesInfo \<Rightarrow> identifierInfo list" where
  \<comment> \<open>the elements in the order of the two nested loops\<close>
  "allElements variablesInfo = concat (map identifiersList variablesInfo)"


definition isPending :: "string option \<Rightarrow> bool" where
  \<comment> \<open>\<^verbatim>\<open>element.type[0] === "?"\<close> for a type that is defined\<close>
  "isPending t = (case t of Some (c # _) \<Rightarrow> c = CHR ''?'' | _ \<Rightarrow> False)"




subsection \<open>Storing one answer\<close>

definition needs :: "InformationType \<Rightarrow> identifierInfo \<Rightarrow> bool" where
  \<comment> \<open>the test that makes an element the one the answer is for\<close>
  "needs informationType element =
     (case informationType of
        INFO_TYPE \<Rightarrow> type element = None \<or> isPending (type element)
      | INFO_SIZE \<Rightarrow> typeValue element = None
      | INFO_ADDRESS \<Rightarrow> address element = None
      | INFO_IDENTIFIER \<Rightarrow> False)"








subsection \<open>Progress\<close>





subsection \<open>Treating one response\<close>




subsection \<open>Reading the output of the debugger\<close>



subsection \<open>The calls of the progress callback\<close>

fun progressOf :: "event \<Rightarrow> (callbackRef \<times> number) list" where
  "progressOf (Progress c x) = [(c, x)]"
| "progressOf e = []"

definition progressEvents :: "event list \<Rightarrow> (callbackRef \<times> number) list" where
  \<comment> \<open>the calls of a progress callback in a log, in order: the callback and the value\<close>
  "progressEvents evs = concat (map progressOf evs)"

subsection \<open>Places in the list of variables\<close>

definition ahead :: "TgdbVariablesInfo \<Rightarrow> nat \<Rightarrow> nat \<Rightarrow> identifierInfo list" where
  \<comment> \<open>the elements that the two loops visit ahead of place \<open>(f, i)\<close>\<close>
  "ahead vi f i =
     allElements (take f vi) @ (if f < length vi then take i (identifiersList (vi ! f)) else [])"

text \<open>
  A write to an object shows at every place that holds it. So behind a write of \<open>e\<close> the
  lists are as before, but for places that show \<open>e\<close>.
\<close>

definition changed :: "identifierInfo \<Rightarrow> identifierInfo \<Rightarrow> identifierInfo \<Rightarrow> bool" where
  "changed e old new \<longleftrightarrow> new = old \<or> new = e"


subsection \<open>What holds between two responses\<close>

text \<open>
  The states in the order in which a session passes through them, and the least and the
  greatest progress value that is reported from a state.
\<close>

fun rank :: "State \<Rightarrow> nat" where
  "rank START_GDB = 0"
| "rank SET_METHODS_OFF = 1"
| "rank SET_TYPEDEFS_OFF = 2"
| "rank GET_VARIABLES_INFO = 3"
| "rank GET_TYPE = 4"
| "rank GET_SIZE = 5"
| "rank GET_ADDRESS = 6"
| "rank IDLE = 7"


fun hi :: "State \<Rightarrow> int" where
  "hi START_GDB = 0"
| "hi SET_METHODS_OFF = 0"
| "hi SET_TYPEDEFS_OFF = 0"
| "hi GET_VARIABLES_INFO = 10"
| "hi GET_TYPE = 25"
| "hi GET_SIZE = 75"
| "hi GET_ADDRESS = 100"
| "hi IDLE = 100"

definition resolved :: "InformationType \<Rightarrow> TgdbVariablesInfo \<Rightarrow> nat" where
  \<comment> \<open>the number of elements that no longer need the information\<close>
  "resolved it vi = length (filter (\<lambda>e. \<not> needs it e) (allElements vi))"

definition counted :: "InformationType \<Rightarrow> int \<Rightarrow> ElfParser \<Rightarrow> bool" where
  \<comment> \<open>the counter of responses is covered by the elements resolved, and the value last
      reported by the value that the counter gives\<close>
  "counted it base p \<longleftrightarrow>
     gdbResponseCounter p \<le> resolved it (gdbVariablesInfo p)
     \<and> (\<forall>s. progressStatus p = Num s \<longrightarrow>
            s \<le> base + (25 * int (gdbResponseCounter p)) div int (numberOfVariables p))"

definition stepInv :: "ElfParser \<Rightarrow> bool" where
  "stepInv p \<longleftrightarrow>
     (previousState p \<noteq> GET_SIZE \<and> previousState p \<noteq> GET_ADDRESS
      \<or> rank (previousState p) \<le> rank (currentState p))
     \<and> (currentState p = GET_TYPE \<longrightarrow>
          (\<forall>e\<in>set (ahead (gdbVariablesInfo p) (currentFilenameIdx p) (currentIdentifierIdx p)).
              type e \<noteq> None))
     \<and> (currentState p = GET_SIZE \<longrightarrow>
          numberOfVariables p = length (allElements (gdbVariablesInfo p))
          \<and> (\<forall>e\<in>set (allElements (gdbVariablesInfo p)). type e \<noteq> None))
     \<and> (currentState p = GET_ADDRESS \<longrightarrow>
          numberOfVariables p = length (allElements (gdbVariablesInfo p)))
     \<and> (currentState p = GET_SIZE \<and> previousState p = GET_SIZE \<longrightarrow> counted INFO_SIZE 50 p)
     \<and> (currentState p = GET_ADDRESS \<and> previousState p = GET_ADDRESS
          \<longrightarrow> counted INFO_ADDRESS 75 p)"

definition postInv :: "ElfParser \<Rightarrow> bool" where
  \<comment> \<open>behind a response that left the parser in the state of the last report\<close>
  "postInv p \<longleftrightarrow>
     (currentState p = previousState p
      \<and> (currentState p = GET_SIZE \<or> currentState p = GET_ADDRESS)
      \<longrightarrow> 0 < numberOfVariables p)"


definition traceInv :: "ElfParser \<Rightarrow> int list \<Rightarrow> bool" where
  \<comment> \<open>\<open>L\<close> holds the values reported so far in the session\<close>
  "traceInv p L \<longleftrightarrow>
     sorted_wrt (<) L \<and> (\<forall>k\<in>set L. 0 \<le> k \<and> k \<le> 100)
     \<and> (L \<noteq> [] \<longrightarrow>
          progressStatus p = Num (last L) \<and> last L \<le> hi (previousState p)
          \<and> rank (previousState p) \<le> rank (currentState p))"

definition statusOf :: "ElfParser \<Rightarrow> int" where
  \<comment> \<open>the value that \<^verbatim>\<open>sendProgressStatusToClient\<close> computes when the ratio is a number\<close>
  "statusOf p =
     (case currentState p of
        IDLE \<Rightarrow> 100
      | START_GDB \<Rightarrow> 0
      | SET_METHODS_OFF \<Rightarrow> 0
      | SET_TYPEDEFS_OFF \<Rightarrow> 0
      | GET_VARIABLES_INFO \<Rightarrow> 10
      | GET_TYPE \<Rightarrow> 25
      | GET_SIZE \<Rightarrow>
          if previousState p \<noteq> currentState p then 50
          else 50 + (25 * int (gdbResponseCounter p)) div int (numberOfVariables p)
      | GET_ADDRESS \<Rightarrow>
          if previousState p \<noteq> currentState p then 75
          else 75 + (25 * int (gdbResponseCounter p)) div int (numberOfVariables p))"


section \<open>Facts about searching\<close>

lemma startsWith_iff: "startsWith s p \<longleftrightarrow> (\<exists>t. s = p @ t)"
  unfolding startsWith_def
  by (metis append_eq_conv_conj append_take_drop_id)

lemma findFrom_range: "findFrom p s k = -1 \<or> int k \<le> findFrom p s k"
  by (induction s arbitrary: k) (auto, force)

lemma findFrom_found:
  "findFrom p s k \<noteq> -1 \<Longrightarrow>
     \<exists>u t. s = u @ p @ t \<and> findFrom p s k = int (k + length u)"
proof (induction s arbitrary: k)
  case Nil
  then show ?case by (auto split: if_splits)
next
  case (Cons c cs)
  show ?case
  proof (cases "startsWith (c # cs) p")
    case True
    then have hit: "findFrom p (c # cs) k = int (k + length ([]::string))" by simp
    from True obtain t where "c # cs = [] @ p @ t" by (auto simp: startsWith_iff)
    with hit show ?thesis by blast
  next
    case False
    with Cons.prems have "findFrom p cs (Suc k) \<noteq> -1" by simp
    from Cons.IH [OF this] obtain u t
      where "cs = u @ p @ t" "findFrom p cs (Suc k) = int (Suc k + length u)" by blast
    then have "c # cs = (c # u) @ p @ t \<and> findFrom p (c # cs) k = int (k + length (c # u))"
      using False by simp
    then show ?thesis by blast
  qed
qed

lemma findFrom_missing:
  "findFrom p s k = -1 \<Longrightarrow> s \<noteq> u @ p @ t"
proof (induction s arbitrary: k u)
  case Nil
  then show ?case by (auto split: if_splits)
next
  case (Cons c cs)
  then have ns: "\<not> startsWith (c # cs) p" and rest: "findFrom p cs (Suc k) = -1"
    by (auto split: if_splits)
  show ?case
  proof (cases u)
    case Nil
    with ns show ?thesis by (auto simp: startsWith_iff)
  next
    case (Cons d u')
    with Cons.IH [OF rest, of u'] show ?thesis by auto
  qed
qed

lemma indexOf_found_iff: "indexOf s p \<noteq> -1 \<longleftrightarrow> (\<exists>u t. s = u @ p @ t)"
proof
  assume "indexOf s p \<noteq> -1"
  then have "findFrom p s 0 \<noteq> -1" by (simp add: indexOf_def indexOfFrom_def)
  from findFrom_found [OF this] show "\<exists>u t. s = u @ p @ t" by blast
next
  assume "\<exists>u t. s = u @ p @ t"
  then obtain u t where "s = u @ p @ t" by blast
  then have "findFrom p s 0 \<noteq> -1" using findFrom_missing [of p s 0 u t] by blast
  then show "indexOf s p \<noteq> -1" by (simp add: indexOf_def indexOfFrom_def)
qed

lemma findLast_found_iff:
  "findLast p s k \<noteq> -1 \<longleftrightarrow> (\<exists>j\<le>k. startsWith (drop j s) p)"
proof (induction k)
  case 0
  then show ?case by simp
next
  case (Suc k)
  show ?case
  proof (cases "startsWith (drop (Suc k) s) p")
    case True
    then show ?thesis by auto
  next
    case False
    then have "(\<exists>j\<le>Suc k. startsWith (drop j s) p) \<longleftrightarrow> (\<exists>j\<le>k. startsWith (drop j s) p)"
      by (metis le_Suc_eq)
    with False Suc show ?thesis by simp
  qed
qed

lemma lastIndexOf_char_iff: "lastIndexOf s [c] \<noteq> -1 \<longleftrightarrow> c \<in> set s"
proof (cases s)
  case Nil
  then show ?thesis by (simp add: lastIndexOf_def lastIndexOfFrom_def)
next
  case (Cons d ds)
  have pt: "startsWith (drop j s) [c] \<longleftrightarrow> j < length s \<and> s ! j = c" for j
  proof (cases "j < length s")
    case True
    then have "drop j s = s ! j # drop (Suc j) s" by (simp add: Cons_nth_drop_Suc)
    with True show ?thesis by (simp add: startsWith_def)
  next
    case False
    then show ?thesis by (simp add: startsWith_def)
  qed
  have "lastIndexOf s [c] \<noteq> -1 \<longleftrightarrow> (\<exists>j\<le>length s - 1. startsWith (drop j s) [c])"
    using Cons by (simp add: lastIndexOf_def lastIndexOfFrom_def findLast_found_iff)
  also have "\<dots> \<longleftrightarrow> (\<exists>j<length s. s ! j = c)"
    unfolding pt using Cons by (metis Suc_pred' length_greater_0_conv less_Suc_eq_le list.distinct(1))
  also have "\<dots> \<longleftrightarrow> c \<in> set s" by (auto simp: in_set_conv_nth)
  finally show ?thesis .
qed

section \<open>Facts about the storage class specifiers\<close>

lemma trim_keeps:
  assumes "c \<in> set s" "\<not> isSpace c"
  shows "c \<in> set (trim s)"
proof -
  have keep: "c \<in> set (dropWhile isSpace xs)" if "c \<in> set xs" for xs
    using that assms(2) by (induction xs) auto
  show ?thesis unfolding trim_def using keep [of s] keep [of "rev (dropWhile isSpace s)"] assms(1)
    by simp
qed

lemma dropMarker_keeps:
  assumes "dropMarker m (s, b) = (t, f)" "c \<in> set s" "c \<notin> set m"
  shows "c \<in> set t"
proof (cases "startsWith s m")
  case True
  then have "length m \<le> length s" by (auto simp: startsWith_iff)
  with True have t: "t = drop (length m) s" and tk: "take (length m) s = m"
    using assms(1)
    by (auto simp: dropMarker_def substringFrom_def substring_def startsWith_def min_absorb1)
  have "set s = set (take (length m) s) \<union> set (drop (length m) s)"
    by (metis append_take_drop_id set_append)
  with assms(2,3) t tk show ?thesis by auto
next
  case False
  with assms show ?thesis by (simp add: dropMarker_def)
qed

lemma storageClassRound_keeps:
  assumes "storageClassRound s = (t, f)" "c \<in> set s" "c \<notin> set ''externstaicvol ''"
  shows "c \<in> set t"
proof -
  obtain s1 b1 where r1: "dropMarker ''extern '' (s, False) = (s1, b1)" by force
  obtain s2 b2 where r2: "dropMarker ''static '' (s1, b1) = (s2, b2)" by force
  obtain s3 b3 where r3: "dropMarker ''volatile '' (s2, b2) = (s3, b3)" by force
  have r4: "dropMarker ''const '' (s3, b3) = (t, f)"
    using assms(1) r1 r2 r3 by (simp add: storageClassRound_def)
  have "c \<in> set s1" using dropMarker_keeps [OF r1 assms(2)] assms(3) by simp
  then have "c \<in> set s2" using dropMarker_keeps [OF r2] assms(3) by simp
  then have "c \<in> set s3" using dropMarker_keeps [OF r3] assms(3) by simp
  then show ?thesis using dropMarker_keeps [OF r4] assms(3) by simp
qed

lemma removeStorageClassSpecifier_keeps:
  "c \<in> set s \<Longrightarrow> c \<notin> set ''externstaicvol '' \<Longrightarrow> c \<in> set (removeStorageClassSpecifier s)"
proof (induction s rule: removeStorageClassSpecifier.induct)
  case (1 tmpStr)
  obtain t f where r: "storageClassRound tmpStr = (t, f)" by force
  have "c \<in> set t" using storageClassRound_keeps [OF r "1.prems"] .
  then show ?case using r "1.IH" [OF r [symmetric]] "1.prems"(2)
    by (subst removeStorageClassSpecifier.simps) (cases f; simp)
qed

section \<open>The classification table\<close>

lemma pointer_class:
  assumes "CHR ''*'' \<in> set expr"
  shows "computeTypeValue expr sizeStr =
           (if tmpSize sizeStr = ''4'' then UNSIGNED_32
            else if tmpSize sizeStr = ''1'' then UNSIGNED_8 else UNSIGNED_16)"
proof -
  have "CHR ''*'' \<in> set (trim expr)"
    using assms by (rule trim_keeps) (simp add: isSpace_def)
  then have "CHR ''*'' \<in> set (removeStorageClassSpecifier (trim expr))"
    by (rule removeStorageClassSpecifier_keeps) simp
  then have "lastIndexOf (removeStorageClassSpecifier (trim expr)) ''*'' \<noteq> -1"
    by (simp add: lastIndexOf_char_iff)
  then show ?thesis by (simp add: computeTypeValue_def Let_def)
qed

text \<open>
  C2. On the type text left after trimming and stripping the storage qualifiers, and the
  size read off the reply (\<open>tmpSize\<close>), \<open>computeTypeValue\<close> follows the table:
  \<open>unsigned char\<close> with size 1 is \<open>UNSIGNED_8\<close>, \<open>int\<close> with size 2 is \<open>SIGNED_16\<close>,
  \<open>int\<close> with size 4 is \<open>SIGNED_32\<close>, \<open>double\<close> with size 8 is \<open>DOUBLE\<close>; and a type
  text that contains \<open>*\<close> is classified by the size alone, 1 as \<open>UNSIGNED_8\<close>, 4 as
  \<open>UNSIGNED_32\<close>, anything else as \<open>UNSIGNED_16\<close>, whatever the pointed-to type.
\<close>

theorem computeTypeValue_table:
  "(removeStorageClassSpecifier (trim expr) = ''unsigned char'' \<and> tmpSize sizeStr = ''1''
      \<longrightarrow> computeTypeValue expr sizeStr = UNSIGNED_8)
   \<and> (removeStorageClassSpecifier (trim expr) = ''int'' \<and> tmpSize sizeStr = ''2''
      \<longrightarrow> computeTypeValue expr sizeStr = SIGNED_16)
   \<and> (removeStorageClassSpecifier (trim expr) = ''int'' \<and> tmpSize sizeStr = ''4''
      \<longrightarrow> computeTypeValue expr sizeStr = SIGNED_32)
   \<and> (removeStorageClassSpecifier (trim expr) = ''double'' \<and> tmpSize sizeStr = ''8''
      \<longrightarrow> computeTypeValue expr sizeStr = DOUBLE)
   \<and> (CHR ''*'' \<in> set expr
      \<longrightarrow> computeTypeValue expr sizeStr =
            (if tmpSize sizeStr = ''1'' then UNSIGNED_8
             else if tmpSize sizeStr = ''4'' then UNSIGNED_32 else UNSIGNED_16))"
proof -
  have star: "lastIndexOf ''unsigned char'' ''*'' = -1" "lastIndexOf ''int'' ''*'' = -1"
    "lastIndexOf ''double'' ''*'' = -1"
    by (simp_all add: lastIndexOf_def lastIndexOfFrom_def startsWith_def eval_nat_numeral)
  have "removeStorageClassSpecifier (trim expr) = ''unsigned char'' \<Longrightarrow> tmpSize sizeStr = ''1''
      \<Longrightarrow> computeTypeValue expr sizeStr = UNSIGNED_8"
    by (simp add: computeTypeValue_def star startsWith_def)
  moreover have "removeStorageClassSpecifier (trim expr) = ''int'' \<Longrightarrow> tmpSize sizeStr = ''2''
      \<Longrightarrow> computeTypeValue expr sizeStr = SIGNED_16"
    by (simp add: computeTypeValue_def star startsWith_def)
  moreover have "removeStorageClassSpecifier (trim expr) = ''int'' \<Longrightarrow> tmpSize sizeStr = ''4''
      \<Longrightarrow> computeTypeValue expr sizeStr = SIGNED_32"
    by (simp add: computeTypeValue_def star startsWith_def)
  moreover have "removeStorageClassSpecifier (trim expr) = ''double'' \<Longrightarrow> tmpSize sizeStr = ''8''
      \<Longrightarrow> computeTypeValue expr sizeStr = DOUBLE"
    by (simp add: computeTypeValue_def star startsWith_def)
  moreover have "CHR ''*'' \<in> set expr \<Longrightarrow> computeTypeValue expr sizeStr =
            (if tmpSize sizeStr = ''1'' then UNSIGNED_8
             else if tmpSize sizeStr = ''4'' then UNSIGNED_32 else UNSIGNED_16)"
    by (simp add: pointer_class)
  ultimately show ?thesis by blast
qed

theorem computeTypeValue_table_witness:
  "computeTypeValue ''unsigned char'' ''$1 = 1'' = UNSIGNED_8
   \<and> computeTypeValue ''static const int'' ''$2 = 2'' = SIGNED_16
   \<and> computeTypeValue '' volatile int'' ''$3 = 4'' = SIGNED_32
   \<and> computeTypeValue ''double'' ''$4 = 8'' = DOUBLE
   \<and> computeTypeValue ''char *'' ''$5 = 4'' = UNSIGNED_32
   \<and> computeTypeValue ''struct node *'' ''$6 = 1'' = UNSIGNED_8
   \<and> computeTypeValue ''const int * const'' ''$7 = 2'' = UNSIGNED_16"
proof -
  have t: "removeStorageClassSpecifier (trim ''unsigned char'') = ''unsigned char''"
    "removeStorageClassSpecifier (trim ''static const int'') = ''int''"
    "removeStorageClassSpecifier (trim '' volatile int'') = ''int''"
    "removeStorageClassSpecifier (trim ''double'') = ''double''"
    by code_simp+
  have m: "tmpSize ''$1 = 1'' = ''1''" "tmpSize ''$2 = 2'' = ''2''" "tmpSize ''$3 = 4'' = ''4''"
    "tmpSize ''$4 = 8'' = ''8''" "tmpSize ''$5 = 4'' = ''4''" "tmpSize ''$6 = 1'' = ''1''"
    "tmpSize ''$7 = 2'' = ''2''"
    by code_simp+
  show ?thesis
    using computeTypeValue_table [of "''unsigned char''" "''$1 = 1''"]
      computeTypeValue_table [of "''static const int''" "''$2 = 2''"]
      computeTypeValue_table [of "'' volatile int''" "''$3 = 4''"]
      computeTypeValue_table [of "''double''" "''$4 = 8''"]
      computeTypeValue_table [of "''char *''" "''$5 = 4''"]
      computeTypeValue_table [of "''struct node *''" "''$6 = 1''"]
      computeTypeValue_table [of "''const int * const''" "''$7 = 2''"]
    by (simp add: t m)
qed

section \<open>Refusing to start\<close>

text \<open>
  C6. When the file does not exist, \<open>readElf\<close> returns the not-found status, calls the
  result callback it was given exactly once, with the empty list, and does nothing else to
  the outside: no debugger is spawned and the state machine stays where it was.
\<close>

theorem readElf_missing_file:
  assumes "\<not> existsSync elfFilename"
  shows "fst (readElf existsSync elfFilename cb expand progressCb p)
           = ELFPARSER_ELFFILENAME_NOT_FOUND
       \<and> out (snd (readElf existsSync elfFilename cb expand progressCb p))
           = out p @ [Result cb []]
       \<and> gdbProcess (snd (readElf existsSync elfFilename cb expand progressCb p)) = gdbProcess p
       \<and> currentState (snd (readElf existsSync elfFilename cb expand progressCb p))
           = currentState p"
  using assms by (simp add: readElf_def callCallback_def emit_def)

theorem readElf_missing_file_witness:
  "fst (readElf (\<lambda>f. f = ''/firmware.elf'') ''/nonexistent'' 7 False None constructor)
       = ELFPARSER_ELFFILENAME_NOT_FOUND
   \<and> out (snd (readElf (\<lambda>f. f = ''/firmware.elf'') ''/nonexistent'' 7 False None constructor))
       = [Result 7 []]
   \<and> gdbProcess (snd (readElf (\<lambda>f. f = ''/firmware.elf'') ''/nonexistent'' 7 False None
         constructor)) = None"
  using readElf_missing_file [of "\<lambda>f. f = ''/firmware.elf''" "''/nonexistent''" 7 False None
      constructor]
  by (simp add: constructor_def)

text \<open>
  C5. A second call while a session is running is refused with the ongoing status and the
  new callback is called once with the empty list; but the call has already stored its
  three parameters, so the running session has lost its own result callback, its
  expand-arrays flag and its progress callback. Here the first call starts a session for
  callback 1, and the second call, for callback 2, replaces all three.
\<close>

theorem readElf_busy_overwrites:
  "(let ex = (\<lambda>f. True);
        p1 = snd (readElf ex ''a.elf'' 1 False None constructor);
        r2 = readElf ex ''b.elf'' 2 True (Some 3) p1
    in currentState p1 = START_GDB
       \<and> callback p1 = Some 1 \<and> expandTableElements p1 = False \<and> progressCallback p1 = None
       \<and> fst r2 = ELFPARSER_PARSING_ONGOING
       \<and> out (snd r2) = out p1 @ [Result 2 []]
       \<and> currentState (snd r2) = START_GDB
       \<and> callback (snd r2) = Some 2
       \<and> expandTableElements (snd r2) = True
       \<and> progressCallback (snd r2) = Some 3)"
  by (simp add: readElf_def callCallback_def emit_def constructor_def Let_def)

section \<open>The result list\<close>

text \<open>
  C1. The list handed to the result callback keeps every element whose address is defined
  and not empty and whose \<open>typeValue\<close> is defined. The classifier answers \<open>-1\<close> for a
  spelling it does not know, and \<open>-1\<close> is defined: a C++ \<open>bool\<close> variable is classified
  \<open>-1\<close> and delivered with that type, which is no member of \<open>TYPE_VALUE\<close>.
\<close>

theorem sendVariablesInfoToClient_unrecognized:
  "computeTypeValue ''bool'' ''$1 = 1'' = -1
   \<and> out (sendVariablesInfoToClient toString16 localeCompare
        (constructor\<lparr>callback := Some cb, gdbVariablesInfo :=
           [\<lparr>filename = ''main.cpp'', identifiersList =
              [\<lparr>identifier = ''flag'', type = Some ''bool'',
                typeValue = Some (computeTypeValue ''bool'' ''$1 = 1''),
                address = Some (extractAddress ''$2 = 0x20000000''),
                classHierarchy = None\<rparr>]\<rparr>]\<rparr>))
      = [Result cb [\<lparr>vname = ''flag'',
                     vaddress = ''0x'' @ padStart 8 CHR ''0'' (toString16 ''0x20000000''),
                     vtype = -1\<rparr>]]
   \<and> -1 \<notin> TYPE_VALUE"
proof -
  have tv: "computeTypeValue ''bool'' ''$1 = 1'' = -1" by code_simp
  have ad: "extractAddress ''$2 = 0x20000000'' = ''0x20000000''" by code_simp
  have "-1 \<notin> TYPE_VALUE"
    by (simp add: TYPE_VALUE_def UNSIGNED_8_def SIGNED_8_def UNSIGNED_16_def SIGNED_16_def
        UNSIGNED_32_def SIGNED_32_def UNSIGNED_64_def SIGNED_64_def FLOAT_def DOUBLE_def)
  then show ?thesis
    by (simp add: tv ad sendVariablesInfoToClient_def resultEntry_def sortBy_def
        callCallback_def emit_def constructor_def)
qed

lemma findFrom_char:
  "findFrom [c] s k \<noteq> -1 \<Longrightarrow>
     \<exists>a rest. s = a @ c # rest \<and> c \<notin> set a \<and> findFrom [c] s k = int (k + length a)"
proof (induction s arbitrary: k)
  case Nil
  then show ?case by simp
next
  case (Cons d ds)
  show ?case
  proof (cases "d = c")
    case True
    then have "d # ds = [] @ c # ds \<and> c \<notin> set [] \<and> findFrom [c] (d # ds) k = int (k + length ([]::string))"
      by (simp add: startsWith_def)
    then show ?thesis by blast
  next
    case False
    then have step: "findFrom [c] (d # ds) k = findFrom [c] ds (Suc k)"
      by (simp add: startsWith_def)
    with Cons.prems have "findFrom [c] ds (Suc k) \<noteq> -1" by simp
    from Cons.IH [OF this] obtain a rest
      where "ds = a @ c # rest" "c \<notin> set a" "findFrom [c] ds (Suc k) = int (Suc k + length a)"
      by blast
    with False step
    have "d # ds = (d # a) @ c # rest \<and> c \<notin> set (d # a)
        \<and> findFrom [c] (d # ds) k = int (k + length (d # a))"
      by simp
    then show ?thesis by blast
  qed
qed

lemma indexOf_char:
  assumes "indexOf s [c] \<noteq> -1"
  obtains a rest where "s = a @ c # rest" "c \<notin> set a" "indexOf s [c] = int (length a)"
proof -
  have "findFrom [c] s 0 \<noteq> -1" using assms by (simp add: indexOf_def indexOfFrom_def)
  from findFrom_char [OF this] that show thesis
    by (auto simp: indexOf_def indexOfFrom_def)
qed

lemma indexOf_char_missing: "c \<notin> set s \<Longrightarrow> indexOf s [c] = -1"
  using indexOf_found_iff [of s "[c]"] by auto

lemma substringFrom_drop: "0 \<le> i \<Longrightarrow> substringFrom s i = drop (nat i) s"
  by (simp add: substringFrom_def substring_def Let_def min_def max_def)

section \<open>The cycle guard\<close>

text \<open>
  C4. When the reply, trimmed and stripped of storage qualifiers, starts with \<open>class\<close> and
  the class name read off it occurs in the hierarchy tag passed in, \<open>extractType\<close> returns
  the empty string and hands back both collections as they were: nothing is added to the
  pending expansion, nothing is removed from the variables, and no member is parsed, so
  the recursive occurrence is not expanded again.
\<close>

theorem extractType_cycle_guard:
  assumes "startsWith (removeStorageClassSpecifier (trim expr)) ''class ''"
    and "orEmpty rootHierarchy = u @ className (removeStorageClassSpecifier (trim expr)) @ t"
  shows "extractType baseClasses variablesInfo newVariablesInfo file expr rootIdentifier
           rootHierarchy bExpandTableElements
         = ('''', variablesInfo, newVariablesInfo)"
proof -
  have "checkClassRecursion (orEmpty rootHierarchy)
          (className (removeStorageClassSpecifier (trim expr)))"
    unfolding checkClassRecursion_def Let_def indexOf_found_iff using assms(2) by blast
  with assms(1) show ?thesis by (simp add: extractType_def Let_def)
qed

theorem extractType_cycle_guard_witness:
  "extractType (\<lambda>s. [s])
     [\<lparr>filename = ''list.cpp'', identifiersList =
        [\<lparr>identifier = ''head.next'', type = None, typeValue = None, address = None,
          classHierarchy = Some ''.Node''\<rparr>]\<rparr>]
     [] ''list.cpp'' ''static class Node {int value; Node next;}'' ''head.next''
     (Some ''.Node'') False
   = ('''',
      [\<lparr>filename = ''list.cpp'', identifiersList =
        [\<lparr>identifier = ''head.next'', type = None, typeValue = None, address = None,
          classHierarchy = Some ''.Node''\<rparr>]\<rparr>],
      [])"
proof -
  have s: "removeStorageClassSpecifier (trim ''static class Node {int value; Node next;}'')
             = ''class Node {int value; Node next;}''"
    by code_simp
  have c: "className ''class Node {int value; Node next;}'' = ''Node''" by code_simp
  have p: "startsWith ''class Node {int value; Node next;}'' ''class ''" by code_simp
  show ?thesis
    by (rule extractType_cycle_guard [where u = "''.''" and t = "''''"])
      (simp_all add: s c p orEmpty_def)
qed

section \<open>Declarations that are left out\<close>

lemma second_bracket:
  assumes "s = u @ [c] @ v @ [c] @ w"
  shows "indexOf s [c] \<noteq> -1 \<and> indexOf (substringFrom s (indexOf s [c] + 1)) [c] \<noteq> -1"
proof -
  have found: "indexOf s [c] \<noteq> -1" using assms indexOf_found_iff by blast
  then obtain a rest where s: "s = a @ c # rest" and a: "c \<notin> set a"
    and i: "indexOf s [c] = int (length a)"
    by (rule indexOf_char)
  have "length (filter (\<lambda>x. x = c) s) \<ge> 2" using assms by simp
  moreover have "filter (\<lambda>x. x = c) s = c # filter (\<lambda>x. x = c) rest"
    using s a by (auto simp: filter_empty_conv)
  ultimately have "filter (\<lambda>x. x = c) rest \<noteq> []" by auto
  then have "c \<in> set rest" by (auto simp: filter_empty_conv)
  then obtain r1 r2 where "rest = r1 @ [c] @ r2" by (auto dest: split_list)
  then have "indexOf rest [c] \<noteq> -1" using indexOf_found_iff by blast
  moreover have "substringFrom s (indexOf s [c] + 1) = rest"
    using s i by (simp add: substringFrom_drop nat_add_distrib)
  ultimately show ?thesis using found by simp
qed

text \<open>
  C8. The declarator text is what \<open>extractIdentifiers\<close> examines: the expression with the
  access keywords and the line number dropped, trimmed. If a second \<open>[\<close> follows the
  first one in it, the answer is the empty identifier; if it has no \<open>[\<close> and no \<open>*\<close> but
  has the marker \<open>" : "\<close>, the answer is the empty identifier too. In the loop of
  \<open>buildVarList\<close>, a declaration with the empty identifier adds nothing to the list and
  the loop goes on behind its semicolon.
\<close>

theorem rejected_declarations:
  "(declaratorText expr = u @ ''['' @ v @ ''['' @ w
      \<longrightarrow> extractIdentifiers expr rootIdentifier expand = [''''])
   \<and> (CHR ''['' \<notin> set (declaratorText expr) \<and> CHR ''*'' \<notin> set (declaratorText expr)
        \<and> declaratorText expr = u @ '' : '' @ w
      \<longrightarrow> extractIdentifiers expr rootIdentifier expand = [''''])
   \<and> (startIdx < length fileBlock
        \<and> nextDeclaration (substringFrom fileBlock (int startIdx)) = Scanned expr endIdx
        \<and> extractIdentifiers expr rootIdentifier expand = ['''']
      \<longrightarrow> buildVarListFrom fileBlock rootIdentifier expand startIdx variablesList
          = buildVarListFrom fileBlock rootIdentifier expand (startIdx + nat endIdx + 1)
              variablesList)"
proof (intro conjI impI)
  assume "declaratorText expr = u @ ''['' @ v @ ''['' @ w"
  from second_bracket [OF this]
  show "extractIdentifiers expr rootIdentifier expand = ['''']"
    by (simp add: extractIdentifiers_def Let_def)
next
  assume a: "CHR ''['' \<notin> set (declaratorText expr) \<and> CHR ''*'' \<notin> set (declaratorText expr)
        \<and> declaratorText expr = u @ '' : '' @ w"
  then have "indexOf (declaratorText expr) ''['' = -1"
    using indexOf_char_missing [of "CHR ''[''" "declaratorText expr"] by blast
  moreover have "lastIndexOf (declaratorText expr) ''*'' = -1"
    using a lastIndexOf_char_iff [of "declaratorText expr" "CHR ''*''"] by blast
  moreover have "indexOf (declaratorText expr) '' : '' \<noteq> -1"
    using a indexOf_found_iff by blast
  ultimately show "extractIdentifiers expr rootIdentifier expand = ['''']"
    by (simp add: extractIdentifiers_def Let_def)
next
  assume "startIdx < length fileBlock
        \<and> nextDeclaration (substringFrom fileBlock (int startIdx)) = Scanned expr endIdx
        \<and> extractIdentifiers expr rootIdentifier expand = ['''']"
  then show "buildVarListFrom fileBlock rootIdentifier expand startIdx variablesList
          = buildVarListFrom fileBlock rootIdentifier expand (startIdx + nat endIdx + 1)
              variablesList"
    by (subst buildVarListFrom.simps) simp
qed

theorem rejected_declarations_witness:
  "extractIdentifiers ''int m[2][3]'' ''s.'' True = ['''']
   \<and> extractIdentifiers ''unsigned int ready : 1'' ''s.'' False = ['''']
   \<and> buildVarListFrom ''int m[2][3]; int a;'' ''s.'' False 0 [''s.z'']
       = buildVarListFrom ''int m[2][3]; int a;'' ''s.'' False 12 [''s.z'']
   \<and> buildVarListFrom ''int m[2][3]; int a;'' ''s.'' False 12 [''s.z''] = [''s.z'', ''s.a'']"
proof -
  have d: "declaratorText ''int m[2][3]'' = ''int m'' @ ''['' @ ''2]'' @ ''['' @ ''3]''"
    "declaratorText ''unsigned int ready : 1'' = ''unsigned int ready'' @ '' : '' @ ''1''"
    "CHR ''['' \<notin> set (declaratorText ''unsigned int ready : 1'')"
    "CHR ''*'' \<notin> set (declaratorText ''unsigned int ready : 1'')"
    by code_simp+
  have n: "nextDeclaration (substringFrom ''int m[2][3]; int a;'' (int 0))
             = Scanned ''int m[2][3]'' 11"
    by code_simp
  have r: "buildVarListFrom ''int m[2][3]; int a;'' ''s.'' False 12 [''s.z''] = [''s.z'', ''s.a'']"
    by code_simp
  have one: "extractIdentifiers ''int m[2][3]'' ''s.'' True = ['''']"
    "extractIdentifiers ''int m[2][3]'' ''s.'' False = ['''']"
    using rejected_declarations [of "''int m[2][3]''" "''int m''" "''2]''" "''3]''"] d(1)
    by blast+
  have two: "extractIdentifiers ''unsigned int ready : 1'' ''s.'' False = ['''']"
    using rejected_declarations [of "''unsigned int ready : 1''" "''unsigned int ready''" _
        "''1''"] d(2,3,4)
    by blast
  have three: "buildVarListFrom ''int m[2][3]; int a;'' ''s.'' False 0 [''s.z'']
       = buildVarListFrom ''int m[2][3]; int a;'' ''s.'' False (0 + nat 11 + 1) [''s.z'']"
    using rejected_declarations [of "''int m[2][3]''" _ _ _ "''s.''" False 0
        "''int m[2][3]; int a;''" 11 "[''s.z'']"] n one(2)
    by simp
  from one(1) two three r show ?thesis by simp
qed

section \<open>Framing does not depend on how the output is cut\<close>

lemma startsWith_append:
  "length p \<le> length s \<Longrightarrow> startsWith (s @ d) p = startsWith s p"
  by (simp add: startsWith_def)

lemma findFrom_append:
  "findFrom p s k \<noteq> -1 \<Longrightarrow> findFrom p (s @ d) k = findFrom p s k"
proof (induction s arbitrary: k)
  case Nil
  then show ?case by (cases d) (auto simp: startsWith_def split: if_splits)
next
  case (Cons c cs)
  from findFrom_bounds [OF Cons.prems] have "length p \<le> length (c # cs)" by simp
  then have sw: "startsWith ((c # cs) @ d) p = startsWith (c # cs) p"
    by (rule startsWith_append)
  show ?case
  proof (cases "startsWith (c # cs) p")
    case True
    with sw show ?thesis by simp
  next
    case False
    with Cons.prems have "findFrom p cs (Suc k) \<noteq> -1" by simp
    from Cons.IH [OF this] False sw show ?thesis by simp
  qed
qed

lemma indexOf_append: "indexOf s p \<noteq> -1 \<Longrightarrow> indexOf (s @ d) p = indexOf s p"
  by (simp add: indexOf_def indexOfFrom_def findFrom_append)

lemma indexOf_bounds:
  assumes "indexOf s p \<noteq> -1"
  shows "0 \<le> indexOf s p" "indexOf s p + int (length p) \<le> int (length s)"
  using indexOfFrom_bounds(1,2) [of s p 0] assms by (simp_all add: indexOf_def)

lemma sliceResponses_no_prompt:
  "indexOf b GDB_PROMPT = -1 \<Longrightarrow> sliceResponses treat b st = Some (b, st)"
  by (subst sliceResponses.simps) simp

lemma sliceResponses_rest:
  "sliceResponses treat b st = Some (b', st') \<Longrightarrow> indexOf b' GDB_PROMPT = -1"
proof (induction treat b st rule: sliceResponses.induct)
  case (1 treat buffer st)
  show ?case
  proof (cases "buffer = [] \<or> indexOf buffer GDB_PROMPT = -1")
    case True
    with "1.prems" show ?thesis
      by (subst (asm) sliceResponses.simps) (auto simp: indexOf_def indexOfFrom_def GDB_PROMPT_def split: if_splits)
  next
    case False
    with "1.prems" "1.IH" show ?thesis
      by (subst (asm) sliceResponses.simps) (auto simp: Let_def split: option.splits)
  qed
qed

lemma sliceResponses_append:
  "sliceResponses treat (b @ d) st =
     (case sliceResponses treat b st of
        None \<Rightarrow> None
      | Some (b', st') \<Rightarrow> sliceResponses treat (b' @ d) st')"
proof (induction treat b st rule: sliceResponses.induct)
  case (1 treat buffer st)
  show ?case
  proof (cases "indexOf buffer GDB_PROMPT = -1")
    case True
    then show ?thesis by (simp add: sliceResponses_no_prompt)
  next
    case False
    let ?e = "indexOf buffer GDB_PROMPT"
    from indexOf_bounds [OF False] have e: "0 \<le> ?e" "?e + int (length GDB_PROMPT) \<le> int (length buffer)"
      by simp_all
    then have ne: "buffer \<noteq> []" by (auto simp: GDB_PROMPT_def)
    have ia: "indexOf (buffer @ d) GDB_PROMPT = ?e" using False by (rule indexOf_append)
    have fr: "slice (buffer @ d) 0 (?e + int (length GDB_PROMPT))
              = slice buffer 0 (?e + int (length GDB_PROMPT))"
      using e by (simp add: slice_def sliceIdx_def)
    have rs: "sliceFrom (buffer @ d) (?e + int (length GDB_PROMPT))
              = sliceFrom buffer (?e + int (length GDB_PROMPT)) @ d"
      using e by (simp add: sliceFrom_def sliceIdx_def)
    show ?thesis
    proof (cases "treat (slice buffer 0 (?e + int (length GDB_PROMPT))) st")
      case None
      have l: "sliceResponses treat (buffer @ d) st = None"
        using False ne ia fr None by (subst sliceResponses.simps) (simp add: Let_def)
      have r: "sliceResponses treat buffer st = None"
        using False ne None by (subst sliceResponses.simps) (simp add: Let_def)
      show ?thesis by (simp add: l r)
    next
      case (Some st1)
      have "sliceResponses treat (buffer @ d) st
            = sliceResponses treat (sliceFrom buffer (?e + int (length GDB_PROMPT)) @ d) st1"
        using False ne ia fr rs Some by (subst sliceResponses.simps) (simp add: Let_def)
      also have "\<dots> = (case sliceResponses treat (sliceFrom buffer (?e + int (length GDB_PROMPT))) st1 of
        None \<Rightarrow> None
      | Some (b', st') \<Rightarrow> sliceResponses treat (b' @ d) st')"
        using "1.IH" [OF ne refl False refl refl Some] .
      also have "\<dots> = (case sliceResponses treat buffer st of
        None \<Rightarrow> None
      | Some (b', st') \<Rightarrow> sliceResponses treat (b' @ d) st')"
        using False ne Some by (subst (2) sliceResponses.simps) (simp add: Let_def)
      finally show ?thesis .
    qed
  qed
qed

lemma receive_eq: "receive toText treat d (b, st) = sliceResponses treat (b @ toText d) st"
  by (simp add: receive_def Let_def sliceResponses_no_prompt)

lemma feed_eq:
  "indexOf b GDB_PROMPT = -1 \<Longrightarrow>
     feed toText treat chunks (b, st)
       = sliceResponses treat (b @ concat (map toText chunks)) st"
proof (induction chunks arbitrary: b st)
  case Nil
  then show ?case by (simp add: sliceResponses_no_prompt)
next
  case (Cons d chunks)
  show ?case
  proof (cases "sliceResponses treat (b @ toText d) st")
    case None
    then show ?thesis
      using sliceResponses_append [of treat "b @ toText d" "concat (map toText chunks)" st]
      by (simp add: receive_eq)
  next
    case (Some r)
    obtain b' st' where r: "r = (b', st')" by force
    from Some r have "indexOf b' GDB_PROMPT = -1" by (auto dest: sliceResponses_rest)
    from Cons.IH [OF this, of st'] Some r show ?thesis
      using sliceResponses_append [of treat "b @ toText d" "concat (map toText chunks)" st]
      by (simp add: receive_eq)
  qed
qed

lemma frames_collected:
  "\<exists>fs tail. sliceResponses (\<lambda>r log. Some (log @ [r])) b log = Some (tail, log @ fs)
     \<and> concat fs @ tail = b
     \<and> (\<forall>f\<in>set fs. \<exists>x. f = x @ GDB_PROMPT \<and> indexOf f GDB_PROMPT = int (length x))
     \<and> indexOf tail GDB_PROMPT = -1"
proof (induction "\<lambda>r (log::string list). Some (log @ [r])" b log rule: sliceResponses.induct)
  case (1 buffer st)
  show ?case
  proof (cases "indexOf buffer GDB_PROMPT = -1")
    case True
    then show ?thesis by (simp add: sliceResponses_no_prompt)
  next
    case False
    let ?e = "indexOf buffer GDB_PROMPT"
    let ?n = "nat ?e + length GDB_PROMPT"
    from indexOf_bounds [OF False] have e: "0 \<le> ?e" "?e + int (length GDB_PROMPT) \<le> int (length buffer)"
      by simp_all
    then have ne: "buffer \<noteq> []" by (auto simp: GDB_PROMPT_def)
    have fr: "slice buffer 0 (?e + int (length GDB_PROMPT)) = take ?n buffer"
      using e by (simp add: slice_def sliceIdx_def nat_add_distrib)
    have rs: "sliceFrom buffer (?e + int (length GDB_PROMPT)) = drop ?n buffer"
      using e by (simp add: sliceFrom_def sliceIdx_def nat_add_distrib)
    from "1.hyps" [OF ne refl False refl refl refl]
    obtain fs tail where
      cont: "sliceResponses (\<lambda>r log. Some (log @ [r])) (sliceFrom buffer (?e + int (length GDB_PROMPT)))
          (st @ [slice buffer 0 (?e + int (length GDB_PROMPT))])
         = Some (tail, (st @ [slice buffer 0 (?e + int (length GDB_PROMPT))]) @ fs)"
      and cc: "concat fs @ tail = sliceFrom buffer (?e + int (length GDB_PROMPT))"
      and each: "\<forall>f\<in>set fs. \<exists>x. f = x @ GDB_PROMPT \<and> indexOf f GDB_PROMPT = int (length x)"
      and tl: "indexOf tail GDB_PROMPT = -1"
      by blast
    have step: "sliceResponses (\<lambda>r log. Some (log @ [r])) buffer st
        = Some (tail, st @ take ?n buffer # fs)"
      using False ne cont fr by (subst sliceResponses.simps) (simp add: Let_def)
    have whole: "concat (take ?n buffer # fs) @ tail = buffer"
      using cc rs by simp
    have "findFrom GDB_PROMPT buffer 0 \<noteq> -1" using False by (simp add: indexOf_def indexOfFrom_def)
    from findFrom_found [OF this] obtain u t where
      ut: "buffer = u @ GDB_PROMPT @ t" "?e = int (length u)"
      by (auto simp: indexOf_def indexOfFrom_def)
    then have tk: "take ?n buffer = u @ GDB_PROMPT" by simp
    have "indexOf (u @ GDB_PROMPT) GDB_PROMPT \<noteq> -1"
      using indexOf_found_iff [of "u @ GDB_PROMPT" GDB_PROMPT] by (metis append_Nil2)
    from indexOf_append [OF this, of t]
    have "indexOf (u @ GDB_PROMPT) GDB_PROMPT = int (length u)"
      using ut by simp
    then have "indexOf (take ?n buffer) GDB_PROMPT = int (length u)"
      using tk by simp
    with tk each have "\<forall>f\<in>set (take ?n buffer # fs).
        \<exists>x. f = x @ GDB_PROMPT \<and> indexOf f GDB_PROMPT = int (length x)"
      by auto
    with step whole tl show ?thesis by blast
  qed
qed

text \<open>
  C7. Start from a buffer that holds no complete response, and let \<open>toText\<close> be what the
  runtime makes of a chunk. Feeding the chunks one by one treats the responses that are cut
  from the text of the first chunk, followed by the text of the second, and so on: with the
  treatment that only records the responses it is given, the responses recorded, followed
  by the buffer left, are that text, each response ends with the prompt and holds it
  nowhere else, and what is left holds no prompt. So two ways of cutting the same output
  into chunks give the same responses and the same rest exactly when the texts of their
  chunks, each made on its own, add up to the same text, and then they give the same
  outcome for any treatment. That holds for a cut between two characters. It fails for a
  cut inside a character of several bytes, where the runtime makes replacement characters
  of the two parts and the character itself of the two bytes together.
\<close>

theorem framing_fragmentation:
  assumes "indexOf buffer GDB_PROMPT = -1"
  shows "(feed toText (\<lambda>r log. Some (log @ [r])) chunks (buffer, [])
            = feed toText (\<lambda>r log. Some (log @ [r])) chunks' (buffer, [])
          \<longleftrightarrow> concat (map toText chunks) = concat (map toText chunks'))
       \<and> (concat (map toText chunks) = concat (map toText chunks')
            \<longrightarrow> feed toText treat chunks (buffer, st) = feed toText treat chunks' (buffer, st))
       \<and> (\<exists>frames tail.
             feed toText (\<lambda>r log. Some (log @ [r])) chunks (buffer, []) = Some (tail, frames)
             \<and> concat frames @ tail = buffer @ concat (map toText chunks)
             \<and> (\<forall>f\<in>set frames. \<exists>x. f = x @ GDB_PROMPT
                    \<and> indexOf f GDB_PROMPT = int (length x))
             \<and> indexOf tail GDB_PROMPT = -1)"
proof (intro conjI)
  have collected: "\<exists>frames tail.
             feed toText (\<lambda>r log. Some (log @ [r])) cs (buffer, []) = Some (tail, frames)
             \<and> concat frames @ tail = buffer @ concat (map toText cs)
             \<and> (\<forall>f\<in>set frames. \<exists>x. f = x @ GDB_PROMPT
                    \<and> indexOf f GDB_PROMPT = int (length x))
             \<and> indexOf tail GDB_PROMPT = -1" for cs
    using frames_collected [of "buffer @ concat (map toText cs)" "[]"]
    by (simp add: feed_eq [OF assms])
  from collected [of chunks]
  show "\<exists>frames tail.
             feed toText (\<lambda>r log. Some (log @ [r])) chunks (buffer, []) = Some (tail, frames)
             \<and> concat frames @ tail = buffer @ concat (map toText chunks)
             \<and> (\<forall>f\<in>set frames. \<exists>x. f = x @ GDB_PROMPT
                    \<and> indexOf f GDB_PROMPT = int (length x))
             \<and> indexOf tail GDB_PROMPT = -1" .
  show "concat (map toText chunks) = concat (map toText chunks')
            \<longrightarrow> feed toText treat chunks (buffer, st) = feed toText treat chunks' (buffer, st)"
    by (simp add: feed_eq [OF assms])
  show "feed toText (\<lambda>r log. Some (log @ [r])) chunks (buffer, [])
            = feed toText (\<lambda>r log. Some (log @ [r])) chunks' (buffer, [])
          \<longleftrightarrow> concat (map toText chunks) = concat (map toText chunks')"
  proof
    assume eq: "feed toText (\<lambda>r log. Some (log @ [r])) chunks (buffer, [])
            = feed toText (\<lambda>r log. Some (log @ [r])) chunks' (buffer, [])"
    from collected [of chunks] obtain frames tail where
      a: "feed toText (\<lambda>r log. Some (log @ [r])) chunks (buffer, []) = Some (tail, frames)"
        "concat frames @ tail = buffer @ concat (map toText chunks)" by blast
    from collected [of chunks'] obtain frames' tail' where
      b: "feed toText (\<lambda>r log. Some (log @ [r])) chunks' (buffer, []) = Some (tail', frames')"
        "concat frames' @ tail' = buffer @ concat (map toText chunks')" by blast
    from eq a(1) b(1) have "tail = tail'" "frames = frames'" by simp_all
    with a(2) b(2) show "concat (map toText chunks) = concat (map toText chunks')" by simp
  next
    assume "concat (map toText chunks) = concat (map toText chunks')"
    then show "feed toText (\<lambda>r log. Some (log @ [r])) chunks (buffer, [])
            = feed toText (\<lambda>r log. Some (log @ [r])) chunks' (buffer, [])"
      by (simp add: feed_eq [OF assms])
  qed
qed

theorem framing_fragmentation_witness:
  "indexOf '''' GDB_PROMPT = -1
   \<and> feed (\<lambda>b. b) (\<lambda>r log. Some (log @ [r])) [''$1 = 4(g'', ''db) $2 ='', '' 2(gdb) $3'']
       ('''', [])
     = feed (\<lambda>b. b) (\<lambda>r log. Some (log @ [r])) [''$1 = 4(gdb) $2 = 2(gdb) $3''] ('''', [])
   \<and> feed (\<lambda>b. b) (\<lambda>r log. Some (log @ [r])) [''$1 = 4(g'', ''db) $2 ='', '' 2(gdb) $3'']
       ('''', [])
     = Some (''$3'', [''$1 = 4(gdb) '', ''$2 = 2(gdb) ''])"
proof -
  have h: "indexOf '''' GDB_PROMPT = -1" by code_simp
  have v: "feed (\<lambda>b. b) (\<lambda>r log. Some (log @ [r])) [''$1 = 4(gdb) $2 = 2(gdb) $3''] ('''', [])
     = Some (''$3'', [''$1 = 4(gdb) '', ''$2 = 2(gdb) ''])"
    by code_simp
  from framing_fragmentation [OF h, where toText = "\<lambda>b. b"
      and chunks = "[''$1 = 4(g'', ''db) $2 ='', '' 2(gdb) $3'']"
      and chunks' = "[''$1 = 4(gdb) $2 = 2(gdb) $3'']"
      and treat = "\<lambda>r log. Some (log @ [r])" and st = "[]"]
  show ?thesis using h v by (simp del: feed.simps)
qed

section \<open>Facts about the last occurrence and about numbers in text\<close>

lemma startsWith_char: "startsWith (drop j s) [c] \<longleftrightarrow> j < length s \<and> s ! j = c"
proof (cases "j < length s")
  case True
  then have "drop j s = s ! j # drop (Suc j) s" by (simp add: Cons_nth_drop_Suc)
  with True show ?thesis by (simp add: startsWith_def)
next
  case False
  then show ?thesis by (simp add: startsWith_def)
qed

lemma findLast_hit:
  "findLast p s k \<noteq> -1 \<Longrightarrow> \<exists>j\<le>k. findLast p s k = int j \<and> startsWith (drop j s) p"
proof (induction k)
  case 0
  then show ?case by (auto split: if_splits)
next
  case (Suc k)
  show ?case
  proof (cases "startsWith (drop (Suc k) s) p")
    case True
    then show ?thesis by auto
  next
    case False
    with Suc.prems have "findLast p s k \<noteq> -1" by simp
    from Suc.IH [OF this] False show ?thesis by (auto intro: le_SucI)
  qed
qed

lemma lastIndexOf_found_iff: "lastIndexOf s p \<noteq> -1 \<longleftrightarrow> (\<exists>u t. s = u @ p @ t)"
proof
  assume a: "lastIndexOf s p \<noteq> -1"
  then have len: "length p \<le> length s" by (auto simp: lastIndexOf_def lastIndexOfFrom_def split: if_splits)
  with a have "findLast p s (length s - length p) \<noteq> -1"
    by (simp add: lastIndexOf_def lastIndexOfFrom_def)
  then obtain j where "startsWith (drop j s) p" by (auto simp: findLast_found_iff)
  then obtain t where "drop j s = p @ t" by (auto simp: startsWith_iff)
  then have "s = take j s @ p @ t" by (metis append_take_drop_id)
  then show "\<exists>u t. s = u @ p @ t" by blast
next
  assume "\<exists>u t. s = u @ p @ t"
  then obtain u t where s: "s = u @ p @ t" by blast
  then have "startsWith (drop (length u) s) p" "length u \<le> length s - length p"
    by (auto simp: startsWith_iff)
  then have "findLast p s (length s - length p) \<noteq> -1"
    unfolding findLast_found_iff by blast
  with s show "lastIndexOf s p \<noteq> -1"
    by (simp add: lastIndexOf_def lastIndexOfFrom_def)
qed

lemma lastIndexOf_unique:
  assumes s: "s = u @ p @ t"
    and uniq: "\<And>u' t'. s = u' @ p @ t' \<Longrightarrow> u' = u"
  shows "lastIndexOf s p = int (length u)"
proof -
  have "lastIndexOf s p \<noteq> -1" using s lastIndexOf_found_iff by blast
  moreover have len: "length p \<le> length s" using s by simp
  ultimately have "findLast p s (length s - length p) \<noteq> -1"
    by (simp add: lastIndexOf_def lastIndexOfFrom_def)
  from findLast_hit [OF this] obtain j where
    j: "findLast p s (length s - length p) = int j" "startsWith (drop j s) p"
      "j \<le> length s - length p"
    by blast
  from j(2) obtain t' where "drop j s = p @ t'" by (auto simp: startsWith_iff)
  then have "s = take j s @ p @ t'" by (metis append_take_drop_id)
  from uniq [OF this] have "take j s = u" .
  then have "length u = j" using j(3) len by auto
  with j(1) len show ?thesis by (simp add: lastIndexOf_def lastIndexOfFrom_def)
qed

lemma split_unique:
  assumes "c \<notin> set a" "c \<notin> set b" "a @ c # b = u @ c # t"
  shows "u = a \<and> t = b"
  using assms append_Cons_eq_iff [of c a b u t] by auto

lemma decimal_digits: "set (decimal n) \<subseteq> set ''0123456789'' \<and> decimal n \<noteq> []"
proof (induction n rule: decimal.induct)
  case (1 n)
  have d: "''0123456789'' ! k \<in> set ''0123456789''" if "k < 10" for k
    using that nth_mem [of k "''0123456789''"] by simp
  show ?case
  proof (cases "n < 10")
    case True
    with d [of n] show ?thesis by (subst decimal.simps, subst (2) decimal.simps) simp
  next
    case False
    with "1.IH" d [of "n mod 10"] show ?thesis
      by (subst decimal.simps, subst (2) decimal.simps) simp
  qed
qed

lemma digitValue_nth: "k < 10 \<Longrightarrow> digitValue (''0123456789'' ! k) = k"
proof -
  assume "k < 10"
  then have "k = 0 \<or> k = 1 \<or> k = 2 \<or> k = 3 \<or> k = 4 \<or> k = 5 \<or> k = 6
    \<or> k = 7 \<or> k = 8 \<or> k = 9" by arith
  then show ?thesis by (elim disjE) (simp_all add: digitValue_def)
qed

lemma decimal_value: "foldl (\<lambda>a c. 10 * a + digitValue c) 0 (decimal n) = n"
proof (induction n rule: decimal.induct)
  case (1 n)
  show ?case
  proof (cases "n < 10")
    case True
    then show ?thesis by (subst decimal.simps) (simp add: digitValue_nth)
  next
    case False
    with "1.IH" show ?thesis
      by (subst decimal.simps) (simp add: digitValue_nth)
  qed
qed

lemma digits_not_space: "c \<in> set ''0123456789'' \<Longrightarrow> \<not> isSpace c \<and> isDigit c \<and> c \<noteq> CHR ''-'' \<and> c \<noteq> CHR ''+'' \<and> c \<noteq> CHR ''['' \<and> c \<noteq> CHR '']'' \<and> c \<noteq> CHR ''x''"
  by (auto simp: isSpace_def isDigit_def)

lemma parseInt_decimal: "n < 2 ^ 53 \<Longrightarrow> parseInt (decimal n) = Num (int n)"
proof -
  assume small: "n < 2 ^ 53"
  obtain c cs where d: "decimal n = c # cs" using decimal_digits [of n] by (cases "decimal n") auto
  have all: "\<forall>x\<in>set (decimal n). isDigit x" using decimal_digits [of n] digits_not_space by blast
  have c: "\<not> isSpace c" "c \<noteq> CHR ''-''" "c \<noteq> CHR ''+''"
    using decimal_digits [of n] digits_not_space [of c] d by auto
  have tw: "takeWhile isDigit (decimal n) = decimal n" using all by (simp add: takeWhile_eq_all_conv)
  have dw: "dropWhile isSpace (decimal n) = decimal n" using c d by simp
  show ?thesis
    unfolding parseInt_def dw Let_def
    using c d tw decimal_value [of n] small by (simp add: toNumber_def roundToDouble_def)
qed

section \<open>Facts about the state machine\<close>

lemma progressEvents_append [simp]:
  "progressEvents (a @ b) = progressEvents a @ progressEvents b"
  by (simp add: progressEvents_def)

lemma progressEvents_Write [simp]: "progressEvents (map Write cs) = []"
  by (induction cs) (simp_all add: progressEvents_def)

lemma progressEvents_simps [simp]:
  "progressEvents [] = []" "progressEvents [Write w] = []"
  "progressEvents [Progress c x] = [(c, x)]"
  by (simp_all add: progressEvents_def)




lemma allElements_append [simp]: "allElements (a @ b) = allElements a @ allElements b"
  by (simp add: allElements_def)

lemma allElements_Cons [simp]: "allElements (x # b) = identifiersList x @ allElements b"
  by (simp add: allElements_def)

lemma allElements_Nil [simp]: "allElements [] = []"
  by (simp add: allElements_def)










lemma removeRoot_length [simp]: "length (removeRootIdentifier file r vi) = length vi"
  by (induction vi) (auto split: option.splits)





lemma ahead_setElement:
  "ahead (setElement f i e vi) f i = ahead vi f i"
  by (cases "f < length vi") (simp_all add: ahead_def setElement_def list_update_beyond)


lemma setElement_decomp:
  assumes "f < length vi" "i < length (identifiersList (vi ! f))"
  shows "allElements vi
           = ahead vi f i @ identifiersList (vi ! f) ! i
               # drop (Suc i) (identifiersList (vi ! f)) @ allElements (drop (Suc f) vi)"
    and "allElements (setElement f i e vi)
           = ahead vi f i @ e
               # drop (Suc i) (identifiersList (vi ! f)) @ allElements (drop (Suc f) vi)"
proof -
  have v: "vi = take f vi @ vi ! f # drop (Suc f) vi" using assms(1) by (rule id_take_nth_drop)
  have l: "identifiersList (vi ! f)
           = take i (identifiersList (vi ! f)) @ identifiersList (vi ! f) ! i
               # drop (Suc i) (identifiersList (vi ! f))"
    using assms(2) by (rule id_take_nth_drop)
  have "allElements vi = allElements (take f vi) @ identifiersList (vi ! f)
                          @ allElements (drop (Suc f) vi)"
    by (subst v) simp
  then show "allElements vi
           = ahead vi f i @ identifiersList (vi ! f) ! i
               # drop (Suc i) (identifiersList (vi ! f)) @ allElements (drop (Suc f) vi)"
    using assms(1) l by (simp add: ahead_def)
  have "setElement f i e vi
        = take f vi @ (vi ! f)\<lparr>identifiersList := (identifiersList (vi ! f))[i := e]\<rparr>
            # drop (Suc f) vi"
    using assms(1) by (simp add: setElement_def upd_conv_take_nth_drop)
  moreover have "(identifiersList (vi ! f))[i := e]
        = take i (identifiersList (vi ! f)) @ e # drop (Suc i) (identifiersList (vi ! f))"
    using assms(2) by (rule upd_conv_take_nth_drop)
  ultimately show "allElements (setElement f i e vi)
           = ahead vi f i @ e
               # drop (Suc i) (identifiersList (vi ! f)) @ allElements (drop (Suc f) vi)"
    using assms(1) by (simp add: ahead_def)
qed

lemma setElement_length:
  assumes "f < length vi" "i < length (identifiersList (vi ! f))"
  shows "length (allElements (setElement f i e vi)) = length (allElements vi)"
  using setElement_decomp(1) [OF assms] setElement_decomp(2) [OF assms, of e] by simp

lemma setElement_set:
  assumes "f < length vi" "i < length (identifiersList (vi ! f))"
  shows "set (allElements (setElement f i e vi)) \<subseteq> insert e (set (allElements vi))"
  using setElement_decomp(1) [OF assms] setElement_decomp(2) [OF assms, of e] by auto

lemma setElement_resolved:
  assumes "f < length vi" "i < length (identifiersList (vi ! f))"
    and "needs it (identifiersList (vi ! f) ! i)" "\<not> needs it e"
  shows "resolved it (setElement f i e vi) = Suc (resolved it vi)"
  using setElement_decomp(1) [OF assms(1,2)] setElement_decomp(2) [OF assms(1,2), of e] assms(3,4) by (simp add: resolved_def)


lemma changed_refl [simp]: "changed e x x"
  by (simp add: changed_def)

















lemma ahead_start [simp]: "ahead vi 0 0 = []"
  by (simp add: ahead_def)


























lemma stepInv_dataBuffer [simp]: "stepInv (p\<lparr>dataBuffer := b\<rparr>) = stepInv p"
  by (simp add: stepInv_def counted_def)

lemma postInv_dataBuffer [simp]: "postInv (p\<lparr>dataBuffer := b\<rparr>) = postInv p"
  by (simp add: postInv_def)

lemma traceInv_dataBuffer [simp]: "traceInv (p\<lparr>dataBuffer := b\<rparr>) L = traceInv p L"
  by (simp add: traceInv_def)

lemma statusOf_dataBuffer [simp]: "statusOf (p\<lparr>dataBuffer := b\<rparr>) = statusOf p"
  by (cases "currentState p") (simp_all add: statusOf_def)











section \<open>The progress values of a session\<close>




section \<open>The recursion guard is a substring test\<close>

text \<open>
  C10. \<open>checkClassRecursion classHierarchy className\<close> is true exactly when \<open>className\<close>
  occurs somewhere inside \<open>classHierarchy\<close> as a substring, whether or not it is a whole
  dot-delimited component. So a class whose name is a piece of an ancestor's name in the
  tag is reported as recursive, and the empty class name always is.
\<close>

theorem checkClassRecursion_substring:
  "(checkClassRecursion hierarchy name
      \<longleftrightarrow> (\<exists>u t. hierarchy = u @ name @ t))
   \<and> checkClassRecursion (h @ ''.'' @ pre @ name @ post @ rest) name
   \<and> checkClassRecursion hierarchy ''''"
proof -
  have a: "checkClassRecursion hierarchy name
      \<longleftrightarrow> (\<exists>u t. hierarchy = u @ name @ t)" for hierarchy name
    by (simp add: checkClassRecursion_def indexOf_found_iff)
  have b: "checkClassRecursion (h @ ''.'' @ pre @ name @ post @ rest) name"
    unfolding a
    by (rule exI [of _ "h @ ''.'' @ pre"], rule exI [of _ "post @ rest"]) simp
  have c: "checkClassRecursion hierarchy ''''"
    unfolding a by (rule exI [of _ "[]"]) simp
  from a b c show ?thesis by blast
qed

end
